theory Spec2Isabelle
  imports Main "HOL-Library.Word"
begin

unbundle bit_operations_syntax

section \<open>The Tegra matrix keyboard controller driver (tegra-kbc.c)\<close>

text \<open>
  A shallow embedding of the scanning and event-resolution part of
  \<^verbatim>\<open>drivers/input/keyboard/tegra-kbc.c\<close>: the driver structure as a record, the
  loops as folds over the index range the C loop walks, the local arrays as lists
  updated by index, the memory-mapped registers as a register file together with the
  trace of the accesses the driver makes, and the calls into the input core as a trace
  of events.
\<close>

type_synonym u8 = "8 word"
type_synonym u16 = "16 word"
type_synonym u32 = "32 word"

subsection \<open>Register offsets and bits (the defines of the file)\<close>

definition KBC_CONTROL_0 :: u32 where
  "KBC_CONTROL_0 = 0x0"

definition KBC_CONTROL_FIFO_CNT_INT_EN :: u32 where
  "KBC_CONTROL_FIFO_CNT_INT_EN = push_bit 3 1"

definition KBC_CONTROL_KBC_EN :: u32 where
  "KBC_CONTROL_KBC_EN = push_bit 0 1"

definition KBC_INT_0 :: u32 where
  "KBC_INT_0 = 0x4"

definition KBC_INT_FIFO_CNT_INT_STATUS :: u32 where
  "KBC_INT_FIFO_CNT_INT_STATUS = push_bit 2 1"

definition KBC_INT_KEYPRESS_INT_STATUS :: u32 where
  "KBC_INT_KEYPRESS_INT_STATUS = push_bit 0 1"

definition KBC_KP_ENT0_0 :: u32 where
  "KBC_KP_ENT0_0 = 0x30"

definition KBC_ROW0_MASK_0 :: u32 where
  "KBC_ROW0_MASK_0 = 0x38"

definition KBC_ROW_SHIFT :: nat where
  "KBC_ROW_SHIFT = 3"

subsection \<open>What the headers outside the file provide\<close>

text \<open>
  The constants \<^verbatim>\<open>KBC_MAX_KPENT\<close>, \<^verbatim>\<open>KBC_MAX_KEY\<close>, \<^verbatim>\<open>KBC_MAX_ROW\<close> (of
  \<^verbatim>\<open>linux/input/tegra_kbc.h\<close>), \<^verbatim>\<open>KEY_FN\<close> (of \<^verbatim>\<open>linux/input.h\<close>) and the function
  \<^verbatim>\<open>msecs_to_jiffies\<close> are used by the file and declared elsewhere. They are parameters
  of the model: every operation takes them in a record, and every theorem holds for all
  their values unless it says otherwise.
\<close>

record kbc_consts =
  KBC_MAX_KPENT :: nat
  KBC_MAX_KEY :: nat
  KBC_MAX_ROW :: nat
  KEY_FN :: u16
  msecs_to_jiffies :: "u32 \<Rightarrow> u32"

text \<open>
  Modelled from the spec: the macro \<^verbatim>\<open>MATRIX_SCAN_CODE\<close> of
  \<^verbatim>\<open>linux/input/matrix_keypad.h\<close> is not part of the file. The spec gives the scan code
  of a matrix position as \<^verbatim>\<open>(row << ROW_SHIFT) | column\<close>.
\<close>

definition MATRIX_SCAN_CODE :: "u32 \<Rightarrow> u32 \<Rightarrow> nat \<Rightarrow> u32" where
  "MATRIX_SCAN_CODE row col row_shift = push_bit row_shift row OR col"

subsection \<open>The driver state\<close>

text \<open>
  Modelled from the spec: \<^verbatim>\<open>struct tegra_kbc_wake_key\<close>, the type of the entries of
  \<^verbatim>\<open>pdata->wake_cfg\<close>, is declared outside the file. The file reads its fields
  \<^verbatim>\<open>row\<close> and \<^verbatim>\<open>col\<close>; the spec describes a matrix position as a pair of integers.
\<close>

record wake_key =
  row :: nat
  col :: nat

text \<open>
  Modelled from the spec: \<^verbatim>\<open>struct tegra_kbc_platform_data\<close> is declared outside the
  file. The spec's configuration holds the wake key list; the file reads it as
  \<^verbatim>\<open>wake_cfg\<close>, an array of \<^verbatim>\<open>wake_cnt\<close> entries, so the count is the length of the
  list. The other fields are not read by the operations modelled here.
\<close>

record tegra_kbc_platform_data =
  wake_cfg :: "wake_key list"

definition wake_cnt :: "tegra_kbc_platform_data \<Rightarrow> nat" where
  "wake_cnt p = length (wake_cfg p)"

text \<open>
  One access to a memory-mapped register, by its offset from \<^verbatim>\<open>kbc->mmio\<close>. Offsets
  and register values are 32 bits wide, and so is \<^verbatim>\<open>unsigned long\<close> (the tick counter
  and the timer expiry) on the 32-bit ARM cores the driver is for.
\<close>

datatype mmio_access = Readl u32 | Writel u32 u32

text \<open>
  What the input core receives: \<^verbatim>\<open>input_report_key(dev, code, value)\<close>,
  \<^verbatim>\<open>input_event(dev, EV_MSC, MSC_SCAN, value)\<close> and \<^verbatim>\<open>input_sync(dev)\<close>.
\<close>

datatype input_ev = EV_KEY u16 int | EV_MSC_SCAN u8 | EV_SYN

text \<open>
  \<^verbatim>\<open>struct tegra_kbc\<close>, with what its pointers lead to: \<open>regs\<close> is the register file
  behind \<^verbatim>\<open>mmio\<close> (a read returns the value the register holds, a write stores it),
  \<open>mmio_log\<close> the accesses made so far, \<open>events\<close> the events handed to \<^verbatim>\<open>idev\<close> so
  far, \<open>irq_enabled\<close> the state of the interrupt line \<^verbatim>\<open>irq\<close>, \<open>timer\<close> the expiry of
  the pending timer (\<open>None\<close> when none is pending), \<open>clk_enabled\<close> the state of
  \<^verbatim>\<open>clk\<close>, and \<open>jiffies\<close> the kernel's tick counter. Fields the modelled operations
  never touch are left out.
\<close>

record tegra_kbc =
  regs :: "u32 \<Rightarrow> u32"
  mmio_log :: "mmio_access list"
  events :: "input_ev list"
  irq_enabled :: bool
  timer :: "u32 option"
  clk_enabled :: bool
  jiffies :: u32
  repoll_dly :: u32
  cp_dly_jiffies :: u32
  use_fn_map :: bool
  use_ghost_filter :: bool
  keypress_caused_wake :: bool
  pdata :: tegra_kbc_platform_data
  keycode :: "u16 list"
  current_keys :: "u16 list"
  num_pressed_keys :: nat
  is_open :: int

subsection \<open>Kernel services\<close>

text \<open>
  Modelled from the spec: \<^verbatim>\<open>readl\<close>, \<^verbatim>\<open>writel\<close>, \<^verbatim>\<open>input_report_key\<close>,
  \<^verbatim>\<open>input_event\<close>, \<^verbatim>\<open>input_sync\<close> and \<^verbatim>\<open>mod_timer\<close> are kernel services outside
  the file. The spec's register access is a read or a write of a named register: a
  read returns what the register holds, a write stores the value, and both are recorded
  in the trace (what the hardware does with a write, such as clearing a status bit
  written as 1, happens outside the driver and is not modelled). The spec's event sink
  receives each press, release, raw scan code and end-of-batch event: they are
  appended to the event trace. Arming the timer sets its expiry.
\<close>

definition readl :: "u32 \<Rightarrow> tegra_kbc \<Rightarrow> u32 \<times> tegra_kbc" where
  "readl addr s = (regs s addr, s\<lparr>mmio_log := mmio_log s @ [Readl addr]\<rparr>)"

definition writel :: "u32 \<Rightarrow> u32 \<Rightarrow> tegra_kbc \<Rightarrow> tegra_kbc" where
  "writel v addr s =
     s\<lparr>regs := (regs s)(addr := v), mmio_log := mmio_log s @ [Writel addr v]\<rparr>"

definition input_report_key :: "u16 \<Rightarrow> int \<Rightarrow> tegra_kbc \<Rightarrow> tegra_kbc" where
  "input_report_key code v s = s\<lparr>events := events s @ [EV_KEY code v]\<rparr>"

definition input_event_msc_scan :: "u8 \<Rightarrow> tegra_kbc \<Rightarrow> tegra_kbc" where
  "input_event_msc_scan v s = s\<lparr>events := events s @ [EV_MSC_SCAN v]\<rparr>"

definition input_sync :: "tegra_kbc \<Rightarrow> tegra_kbc" where
  "input_sync s = s\<lparr>events := events s @ [EV_SYN]\<rparr>"

definition mod_timer :: "u32 \<Rightarrow> tegra_kbc \<Rightarrow> tegra_kbc" where
  "mod_timer expires s = s\<lparr>timer := Some expires\<rparr>"

text \<open>
  Modelled from the spec: \<^verbatim>\<open>disable_irq\<close>, \<^verbatim>\<open>del_timer_sync\<close> and
  \<^verbatim>\<open>clk_disable_unprepare\<close> are kernel services outside the file. The spec describes
  their effect at device stop as "interrupt masked, timer cancelled"; the clock is
  switched off.
\<close>

definition disable_irq :: "tegra_kbc \<Rightarrow> tegra_kbc" where
  "disable_irq s = s\<lparr>irq_enabled := False\<rparr>"

definition del_timer_sync :: "tegra_kbc \<Rightarrow> tegra_kbc" where
  "del_timer_sync s = s\<lparr>timer := None\<rparr>"

definition clk_disable_unprepare :: "tegra_kbc \<Rightarrow> tegra_kbc" where
  "clk_disable_unprepare s = s\<lparr>clk_enabled := False\<rparr>"

subsection \<open>Reporting released and pressed keys\<close>

text \<open>
  The inner loop of \<^verbatim>\<open>tegra_kbc_report_released_keys\<close>:
  \<^verbatim>\<open>for (j = 0; j < new_num_keys; j++) if (old_keycodes[i] == new_keycodes[j]) break;\<close>
  The value is \<open>j\<close> when the loop is left.
\<close>

function released_scan :: "u16 \<Rightarrow> u16 list \<Rightarrow> nat \<Rightarrow> nat \<Rightarrow> nat" where
  "released_scan old_key new_keycodes new_num_keys j =
     (if j < new_num_keys
      then (if old_key = new_keycodes ! j then j
            else released_scan old_key new_keycodes new_num_keys (j + 1))
      else j)"
  by pat_completeness auto
termination
  by (relation "measure (\<lambda>(old_key, new_keycodes, new_num_keys, j). new_num_keys - j)") auto

declare released_scan.simps [simp del]

definition released_step ::
  "u16 list \<Rightarrow> u16 list \<Rightarrow> nat \<Rightarrow> nat \<Rightarrow> tegra_kbc \<Rightarrow> tegra_kbc" where
  "released_step old_keycodes new_keycodes new_num_keys i s =
     (let j = released_scan (old_keycodes ! i) new_keycodes new_num_keys 0
      in if j = new_num_keys then input_report_key (old_keycodes ! i) 0 s else s)"

definition tegra_kbc_report_released_keys ::
  "u16 list \<Rightarrow> nat \<Rightarrow> u16 list \<Rightarrow> nat \<Rightarrow> tegra_kbc \<Rightarrow> tegra_kbc" where
  "tegra_kbc_report_released_keys old_keycodes old_num_keys new_keycodes new_num_keys s =
     fold (released_step old_keycodes new_keycodes new_num_keys) [0..<old_num_keys] s"

definition pressed_step :: "u8 list \<Rightarrow> u16 list \<Rightarrow> nat \<Rightarrow> tegra_kbc \<Rightarrow> tegra_kbc" where
  "pressed_step scancodes keycodes i s =
     input_report_key (keycodes ! i) 1 (input_event_msc_scan (scancodes ! i) s)"

definition tegra_kbc_report_pressed_keys ::
  "u8 list \<Rightarrow> u16 list \<Rightarrow> nat \<Rightarrow> tegra_kbc \<Rightarrow> tegra_kbc" where
  "tegra_kbc_report_pressed_keys scancodes keycodes num_pressed s =
     fold (pressed_step scancodes keycodes) [0..<num_pressed] s"

subsection \<open>Decoding, filtering and reporting a sample\<close>

text \<open>
  The local variables of \<^verbatim>\<open>tegra_kbc_report_keys\<close>. The arrays \<open>scancodes\<close> and
  \<open>keycodes\<close> are not initialised by the C code: their initial contents are arguments
  of the model.
\<close>

record report_locals =
  val :: u32
  scancodes :: "u8 list"
  keycodes :: "u16 list"
  num_down :: nat
  fn_keypress :: bool
  key_in_same_row :: bool
  key_in_same_col :: bool

text \<open>One round of the first loop (lines 141 to 161), for the index \<open>i\<close>.\<close>

definition decode_step ::
  "kbc_consts \<Rightarrow> nat \<Rightarrow> tegra_kbc \<times> report_locals \<Rightarrow> tegra_kbc \<times> report_locals" where
  "decode_step c i = (\<lambda>(s, l).
     let (v, s1) = (if i mod 4 = 0 then readl (KBC_KP_ENT0_0 + of_nat i) s else (val l, s));
         l1 = (if v AND 0x80 \<noteq> 0
               then let col = v AND 0x07;
                        row = drop_bit 3 v AND 0x0f;
                        scancode = (ucast (MATRIX_SCAN_CODE row col KBC_ROW_SHIFT) :: u8);
                        l' = l\<lparr>scancodes := (scancodes l)[num_down l := scancode],
                               keycodes := (keycodes l)[num_down l := keycode s ! unat scancode]\<rparr>
                    in if keycodes l' ! num_down l' = KEY_FN c \<and> use_fn_map s
                       then l'\<lparr>fn_keypress := True\<rparr>
                       else l'\<lparr>num_down := num_down l' + 1\<rparr>
               else l)
     in (s1, l1\<lparr>val := drop_bit 8 v\<rparr>))"

text \<open>The ghost check (lines 169 to 189): the inner loop body, the outer loop body.\<close>

definition ghost_inner_step :: "u8 \<Rightarrow> u8 \<Rightarrow> nat \<Rightarrow> report_locals \<Rightarrow> report_locals" where
  "ghost_inner_step curr_col curr_row j l =
     (let col = scancodes l ! j AND 0x07;
          row = drop_bit KBC_ROW_SHIFT (scancodes l ! j);
          l1 = (if col = curr_col then l\<lparr>key_in_same_col := True\<rparr> else l)
      in if row = curr_row then l1\<lparr>key_in_same_row := True\<rparr> else l1)"

definition ghost_outer_step :: "nat \<Rightarrow> report_locals \<Rightarrow> report_locals" where
  "ghost_outer_step i l =
     (let curr_col = scancodes l ! i AND 0x07;
          curr_row = drop_bit KBC_ROW_SHIFT (scancodes l ! i)
      in fold (ghost_inner_step curr_col curr_row) [i + 1..<num_down l] l)"

definition ghost_check :: "tegra_kbc \<Rightarrow> report_locals \<Rightarrow> report_locals" where
  "ghost_check s l =
     (if use_ghost_filter s \<and> num_down l \<ge> 3
      then fold ghost_outer_step [0..<num_down l] l
      else l)"

text \<open>The translation on a Fn keypress (lines 195 to 200).\<close>

definition fn_step :: "kbc_consts \<Rightarrow> tegra_kbc \<Rightarrow> nat \<Rightarrow> report_locals \<Rightarrow> report_locals" where
  "fn_step c s i l =
     (let scs = (scancodes l)[i := scancodes l ! i + of_nat (KBC_MAX_KEY c)]
      in l\<lparr>scancodes := scs, keycodes := (keycodes l)[i := keycode s ! unat (scs ! i)]\<rparr>)"

definition fn_translate :: "kbc_consts \<Rightarrow> tegra_kbc \<Rightarrow> report_locals \<Rightarrow> report_locals" where
  "fn_translate c s l =
     (if fn_keypress l then fold (fn_step c s) [0..<num_down l] l else l)"

text \<open>
  The local variables of \<^verbatim>\<open>tegra_kbc_report_keys\<close> when it reaches line 203, and the
  state (the register reads of the first loop are its only effect so far).
\<close>

definition report_locals_init :: "u8 list \<Rightarrow> u16 list \<Rightarrow> report_locals" where
  "report_locals_init scancodes0 keycodes0 =
     \<lparr>val = 0, scancodes = scancodes0, keycodes = keycodes0, num_down = 0,
      fn_keypress = False, key_in_same_row = False, key_in_same_col = False\<rparr>"

definition decode_sample ::
  "kbc_consts \<Rightarrow> u8 list \<Rightarrow> u16 list \<Rightarrow> tegra_kbc \<Rightarrow> tegra_kbc \<times> report_locals" where
  "decode_sample c scancodes0 keycodes0 s =
     fold (decode_step c) [0..<KBC_MAX_KPENT c] (s, report_locals_init scancodes0 keycodes0)"

definition sample_locals ::
  "kbc_consts \<Rightarrow> u8 list \<Rightarrow> u16 list \<Rightarrow> tegra_kbc \<Rightarrow> tegra_kbc \<times> report_locals" where
  "sample_locals c scancodes0 keycodes0 s =
     (let (s1, l1) = decode_sample c scancodes0 keycodes0 s
      in (s1, fn_translate c s1 (ghost_check s1 l1)))"

text \<open>
  \<^verbatim>\<open>memcpy(kbc->current_keys, keycodes, sizeof(kbc->current_keys))\<close>: the first
  \<^verbatim>\<open>KBC_MAX_KPENT\<close> entries are copied.
\<close>

definition memcpy_keys :: "kbc_consts \<Rightarrow> u16 list \<Rightarrow> u16 list \<Rightarrow> u16 list" where
  "memcpy_keys c dst src = take (KBC_MAX_KPENT c) src @ drop (KBC_MAX_KPENT c) dst"

definition tegra_kbc_report_keys ::
  "kbc_consts \<Rightarrow> u8 list \<Rightarrow> u16 list \<Rightarrow> tegra_kbc \<Rightarrow> tegra_kbc" where
  "tegra_kbc_report_keys c scancodes0 keycodes0 s =
     (let (s1, l) = sample_locals c scancodes0 keycodes0 s
      in if key_in_same_col l \<and> key_in_same_row l then s1
         else let s2 = tegra_kbc_report_released_keys
                         (current_keys s1) (num_pressed_keys s1) (keycodes l) (num_down l) s1;
                  s3 = tegra_kbc_report_pressed_keys (scancodes l) (keycodes l) (num_down l) s2;
                  s4 = input_sync s3
              in s4\<lparr>current_keys := memcpy_keys c (current_keys s4) (keycodes l),
                     num_pressed_keys := num_down l\<rparr>)"

subsection \<open>The timer callback and the interrupt handler\<close>

definition tegra_kbc_set_fifo_interrupt :: "bool \<Rightarrow> tegra_kbc \<Rightarrow> tegra_kbc" where
  "tegra_kbc_set_fifo_interrupt enable s =
     (let (v, s1) = readl KBC_CONTROL_0 s;
          v1 = (if enable then v OR KBC_CONTROL_FIFO_CNT_INT_EN
                else v AND NOT KBC_CONTROL_FIFO_CNT_INT_EN)
      in writel v1 KBC_CONTROL_0 s1)"

definition release_step :: "nat \<Rightarrow> tegra_kbc \<Rightarrow> tegra_kbc" where
  "release_step i s = input_report_key (current_keys s ! i) 0 s"

definition tegra_kbc_keypress_timer ::
  "kbc_consts \<Rightarrow> u8 list \<Rightarrow> u16 list \<Rightarrow> tegra_kbc \<Rightarrow> tegra_kbc" where
  "tegra_kbc_keypress_timer c scancodes0 keycodes0 s =
     (let (v0, s1) = readl KBC_INT_0 s;
          v = drop_bit 4 v0 AND 0xf
      in if v \<noteq> 0
         then let s2 = tegra_kbc_report_keys c scancodes0 keycodes0 s1;
                  dly = (if v = 1 then repoll_dly s2 else 1)
              in mod_timer (jiffies s2 + msecs_to_jiffies c dly) s2
         else let s2 = fold release_step [0..<num_pressed_keys s1] s1;
                  s3 = input_sync s2;
                  s4 = s3\<lparr>num_pressed_keys := 0\<rparr>
              in tegra_kbc_set_fifo_interrupt True s4)"

definition tegra_kbc_isr :: "tegra_kbc \<Rightarrow> tegra_kbc" where
  "tegra_kbc_isr s =
     (let (v, s1) = readl KBC_INT_0 s;
          s2 = writel v KBC_INT_0 s1
      in if v AND KBC_INT_FIFO_CNT_INT_STATUS \<noteq> 0
         then let s3 = tegra_kbc_set_fifo_interrupt False s2
              in mod_timer (jiffies s3 + cp_dly_jiffies s3) s3
         else if v AND KBC_INT_KEYPRESS_INT_STATUS \<noteq> 0
         then s2\<lparr>keypress_caused_wake := True\<rparr>
         else s2)"

subsection \<open>Wake keys and device stop\<close>

text \<open>
  \<^verbatim>\<open>BUG_ON(pdata->wake_cnt > KBC_MAX_KEY)\<close> stops the kernel: the result is \<open>None\<close>.
\<close>

definition wake_reset_step :: "u32 \<Rightarrow> nat \<Rightarrow> tegra_kbc \<Rightarrow> tegra_kbc" where
  "wake_reset_step rst_val i s = writel rst_val (KBC_ROW0_MASK_0 + of_nat i * 4) s"

definition wake_key_step :: "nat \<Rightarrow> tegra_kbc \<Rightarrow> tegra_kbc" where
  "wake_key_step i s =
     (let addr = of_nat (row (wake_cfg (pdata s) ! i)) * 4 + KBC_ROW0_MASK_0;
          (v, s1) = readl addr s;
          v1 = v AND NOT (push_bit (col (wake_cfg (pdata s) ! i)) 1)
      in writel v1 addr s1)"

definition tegra_kbc_setup_wakekeys :: "kbc_consts \<Rightarrow> bool \<Rightarrow> tegra_kbc \<Rightarrow> tegra_kbc option" where
  "tegra_kbc_setup_wakekeys c filter_on s =
     (if wake_cnt (pdata s) > KBC_MAX_KEY c then None
      else let rst_val = (if filter_on \<and> wake_cnt (pdata s) \<noteq> 0 then NOT 0 else 0);
               s1 = fold (wake_reset_step rst_val) [0..<KBC_MAX_ROW c] s
           in if filter_on
              then Some (fold wake_key_step [0..<wake_cnt (pdata s1)] s1)
              else Some s1)"

definition tegra_kbc_stop :: "tegra_kbc \<Rightarrow> tegra_kbc" where
  "tegra_kbc_stop s =
     (let (v, s1) = readl KBC_CONTROL_0 s;
          v1 = v AND NOT 1;
          s2 = writel v1 KBC_CONTROL_0 s1;
          s3 = disable_irq s2;
          s4 = del_timer_sync s3;
          s5 = clk_disable_unprepare s4
      in s5\<lparr>is_open := 0\<rparr>)"

section \<open>What the spec says, as definitions\<close>

subsection \<open>The register trace\<close>

text \<open>The values written to one register, in the order of the trace.\<close>

definition writes_to :: "u32 \<Rightarrow> mmio_access list \<Rightarrow> u32 list" where
  "writes_to addr log =
     concat (map (\<lambda>a. case a of Readl b \<Rightarrow> [] | Writel b v \<Rightarrow> if b = addr then [v] else []) log)"

subsection \<open>The FIFO entry format\<close>

text \<open>
  The spec's register contract: the FIFO entry registers follow one another, each holds
  four byte lanes, and in a lane bit 7 is the valid flag, bits 0 to 2 the column and
  bits 3 to 6 the row. The scan code of a position is \<^verbatim>\<open>(row << ROW_SHIFT) | column\<close>.
\<close>

definition fifo_word :: "tegra_kbc \<Rightarrow> nat \<Rightarrow> u32" where
  "fifo_word s j = regs s (KBC_KP_ENT0_0 + 4 * of_nat j)"

definition fifo_lane :: "tegra_kbc \<Rightarrow> nat \<Rightarrow> u8" where
  "fifo_lane s i = ucast (drop_bit (8 * (i mod 4)) (fifo_word s (i div 4)))"

definition lane_valid :: "u8 \<Rightarrow> bool" where
  "lane_valid b = bit b 7"

definition lane_column :: "u8 \<Rightarrow> u8" where
  "lane_column b = take_bit 3 b"

definition lane_row :: "u8 \<Rightarrow> u8" where
  "lane_row b = take_bit 4 (drop_bit 3 b)"

definition lane_scancode :: "u8 \<Rightarrow> u8" where
  "lane_scancode b = push_bit KBC_ROW_SHIFT (lane_row b) OR lane_column b"

subsection \<open>The event batch of a reported sample\<close>

text \<open>
  The spec's key state tracker: a release event for every output code of the previous
  set that is absent from the new set, then for every entry of the new set a scan-code
  event followed by a press event.
\<close>

definition released_events :: "u16 list \<Rightarrow> u16 list \<Rightarrow> input_ev list" where
  "released_events old new = map (\<lambda>k. EV_KEY k 0) (filter (\<lambda>k. k \<notin> set new) old)"

definition pressed_events :: "u8 list \<Rightarrow> u16 list \<Rightarrow> input_ev list" where
  "pressed_events scs kcs =
     concat (map (\<lambda>(sc, kc). [EV_MSC_SCAN sc, EV_KEY kc 1]) (zip scs kcs))"

text \<open>
  \<^verbatim>\<open>CurrentKeys\<close>: the entries \<^verbatim>\<open>current_keys[0..num_pressed_keys)\<close>.
\<close>

definition CurrentKeys :: "tegra_kbc \<Rightarrow> u16 list" where
  "CurrentKeys s = take (num_pressed_keys s) (current_keys s)"

subsection \<open>The sample of one FIFO read cycle\<close>

text \<open>
  The spec's scan decoder, over the first \<open>k\<close> byte lanes: a lane counts when its valid
  flag is set, and it is the alternate-layer (Fn) key when the alternate layer is in use
  and the primary keymap gives its scan code the key code \<^verbatim>\<open>KEY_FN\<close>. The sample is
  the list of the lanes that count and are not the Fn key, in FIFO order; the Fn flag
  says that some lane that counts is the Fn key.
\<close>

definition lane_is_fn :: "kbc_consts \<Rightarrow> tegra_kbc \<Rightarrow> u8 \<Rightarrow> bool" where
  "lane_is_fn c s b = (use_fn_map s \<and> keycode s ! unat (lane_scancode b) = KEY_FN c)"

definition reported_lane :: "kbc_consts \<Rightarrow> tegra_kbc \<Rightarrow> u8 \<Rightarrow> bool" where
  "reported_lane c s b = (lane_valid b \<and> \<not> lane_is_fn c s b)"

definition sample_upto :: "kbc_consts \<Rightarrow> tegra_kbc \<Rightarrow> nat \<Rightarrow> u8 list" where
  "sample_upto c s k = filter (reported_lane c s) (map (fifo_lane s) [0..<k])"

definition fn_upto :: "kbc_consts \<Rightarrow> tegra_kbc \<Rightarrow> nat \<Rightarrow> bool" where
  "fn_upto c s k = list_ex (\<lambda>b. lane_valid b \<and> lane_is_fn c s b) (map (fifo_lane s) [0..<k])"

definition sample_lanes :: "kbc_consts \<Rightarrow> tegra_kbc \<Rightarrow> u8 list" where
  "sample_lanes c s = sample_upto c s (KBC_MAX_KPENT c)"

definition sample_fn :: "kbc_consts \<Rightarrow> tegra_kbc \<Rightarrow> bool" where
  "sample_fn c s = fn_upto c s (KBC_MAX_KPENT c)"

text \<open>
  The scan codes and key codes the sample is reported with: when the Fn key is in the
  sample, \<^verbatim>\<open>KBC_MAX_KEY\<close> is added to every scan code (in an unsigned char) before the
  keymap is consulted.
\<close>

definition sample_scancodes :: "kbc_consts \<Rightarrow> tegra_kbc \<Rightarrow> u8 list" where
  "sample_scancodes c s =
     map (\<lambda>b. if sample_fn c s then lane_scancode b + of_nat (KBC_MAX_KEY c) else lane_scancode b)
       (sample_lanes c s)"

definition sample_keycodes :: "kbc_consts \<Rightarrow> tegra_kbc \<Rightarrow> u16 list" where
  "sample_keycodes c s = map (\<lambda>sc. keycode s ! unat sc) (sample_scancodes c s)"

text \<open>
  The register reads of one read cycle: the FIFO entry registers that hold
  \<^verbatim>\<open>KBC_MAX_KPENT\<close> byte lanes, each once, in order.
\<close>

definition fifo_reads :: "kbc_consts \<Rightarrow> mmio_access list" where
  "fifo_reads c =
     map (\<lambda>j. Readl (KBC_KP_ENT0_0 + 4 * of_nat j)) [0..<(KBC_MAX_KPENT c + 3) div 4]"

subsection \<open>The ghost filter\<close>

text \<open>
  Some unordered pair of entries of a list is related by \<open>P\<close>. The spec's ghost rule:
  the filter is enabled, the sample has at least three entries, some pair of its
  positions shares a row and some pair shares a column.
\<close>

fun some_pair :: "('a \<Rightarrow> 'a \<Rightarrow> bool) \<Rightarrow> 'a list \<Rightarrow> bool" where
  "some_pair P [] = False"
| "some_pair P (x # xs) = ((\<exists>y\<in>set xs. P x y) \<or> some_pair P xs)"

definition row_collision :: "u8 list \<Rightarrow> bool" where
  "row_collision bs = some_pair (\<lambda>a b. lane_row a = lane_row b) bs"

definition column_collision :: "u8 list \<Rightarrow> bool" where
  "column_collision bs = some_pair (\<lambda>a b. lane_column a = lane_column b) bs"

definition ghosted :: "kbc_consts \<Rightarrow> tegra_kbc \<Rightarrow> bool" where
  "ghosted c s = (use_ghost_filter s \<and> 3 \<le> length (sample_lanes c s) \<and>
                  row_collision (sample_lanes c s) \<and> column_collision (sample_lanes c s))"

subsection \<open>Array sizes\<close>

text \<open>
  The C declarations give the local arrays and \<^verbatim>\<open>current_keys\<close> the size
  \<^verbatim>\<open>KBC_MAX_KPENT\<close>; \<^verbatim>\<open>num_pressed_keys\<close> counts entries of \<^verbatim>\<open>current_keys\<close>.
\<close>

definition report_pre :: "kbc_consts \<Rightarrow> u8 list \<Rightarrow> u16 list \<Rightarrow> tegra_kbc \<Rightarrow> bool" where
  "report_pre c sc0 kc0 s =
     (length sc0 = KBC_MAX_KPENT c \<and> length kc0 = KBC_MAX_KPENT c \<and>
      length (current_keys s) = KBC_MAX_KPENT c \<and> num_pressed_keys s \<le> KBC_MAX_KPENT c)"

subsection \<open>The invariant of the decoding loop\<close>

text \<open>
  Before the round for index \<open>k\<close>: the value of \<open>val\<close> the round will test (unless the
  round reloads it), the reads made so far, and what the local variables hold.
\<close>

definition lane_val :: "tegra_kbc \<Rightarrow> nat \<Rightarrow> u32" where
  "lane_val s k = drop_bit (8 * (k mod 4)) (fifo_word s (k div 4))"

definition decode_reads :: "nat \<Rightarrow> mmio_access list" where
  "decode_reads k =
     map (\<lambda>i. Readl (KBC_KP_ENT0_0 + of_nat i)) (filter (\<lambda>i. i mod 4 = 0) [0..<k])"

definition decode_inv ::
  "kbc_consts \<Rightarrow> tegra_kbc \<Rightarrow> u8 list \<Rightarrow> u16 list \<Rightarrow> nat \<Rightarrow> report_locals \<Rightarrow> bool" where
  "decode_inv c s sc0 kc0 k l =
     (num_down l = length (sample_upto c s k) \<and>
      length (scancodes l) = length sc0 \<and> length (keycodes l) = length kc0 \<and>
      take (num_down l) (scancodes l) = map lane_scancode (sample_upto c s k) \<and>
      take (num_down l) (keycodes l) =
        map (\<lambda>b. keycode s ! unat (lane_scancode b)) (sample_upto c s k) \<and>
      fn_keypress l = fn_upto c s k \<and>
      (k mod 4 \<noteq> 0 \<longrightarrow> val l = lane_val s k) \<and>
      \<not> key_in_same_row l \<and> \<not> key_in_same_col l)"

subsection \<open>The keys the input core holds as pressed\<close>




subsection \<open>The wake masks\<close>

text \<open>
  The spec's register contract: one 32-bit mask register per row, one bit per column,
  1 = blocked. The entries of the wake list are matrix positions: the row is below
  \<^verbatim>\<open>KBC_MAX_ROW\<close>, and the column is a bit of the mask register.
\<close>

definition row_mask_addr :: "nat \<Rightarrow> u32" where
  "row_mask_addr r = KBC_ROW0_MASK_0 + 4 * of_nat r"

definition wake_blocked :: "tegra_kbc \<Rightarrow> nat \<Rightarrow> nat \<Rightarrow> bool" where
  "wake_blocked s r j = bit (regs s (row_mask_addr r)) j"

definition valid_wake_cfg :: "kbc_consts \<Rightarrow> tegra_kbc_platform_data \<Rightarrow> bool" where
  "valid_wake_cfg c p = list_all (\<lambda>k. row k < KBC_MAX_ROW c \<and> col k < 32) (wake_cfg p)"

section \<open>Example configuration\<close>

text \<open>
  The values the Tegra headers give the constants (8 key entries, 16 rows of 8 columns,
  128 keys, \<^verbatim>\<open>KEY_FN\<close> = 0x1d0), with a tick of one millisecond.
\<close>

definition ex_consts :: kbc_consts where
  "ex_consts = \<lparr>KBC_MAX_KPENT = 8, KBC_MAX_KEY = 128, KBC_MAX_ROW = 16, KEY_FN = 0x1d0,
                msecs_to_jiffies = (\<lambda>m. m)\<rparr>"

text \<open>
  A keymap of 256 entries: position (row 0, column 2) is the Fn key, every other scan
  code \<open>n\<close> has the key code \<open>n + 1\<close>.
\<close>

definition ex_keycode :: "u16 list" where
  "ex_keycode = map (\<lambda>n. if n = 2 then 0x1d0 else of_nat n + 1) [0..<256]"

definition ex_kbc :: tegra_kbc where
  "ex_kbc = \<lparr>regs = (\<lambda>a. 0), mmio_log = [], events = [], irq_enabled = True, timer = None,
             clk_enabled = True, jiffies = 1000, repoll_dly = 5, cp_dly_jiffies = 2,
             use_fn_map = True, use_ghost_filter = True, keypress_caused_wake = False,
             pdata = \<lparr>wake_cfg = [\<lparr>row = 0, col = 1\<rparr>, \<lparr>row = 2, col = 3\<rparr>]\<rparr>,
             keycode = ex_keycode, current_keys = [0, 0, 0, 0, 0, 0, 0, 0],
             num_pressed_keys = 0, is_open = 1\<rparr>"

text \<open>The example device with the keys 30 and 48 reported as pressed.\<close>

definition ex_held :: tegra_kbc where
  "ex_held = ex_kbc\<lparr>current_keys := [30, 48, 0, 0, 0, 0, 0, 0], num_pressed_keys := 2\<rparr>"

text \<open>What the uninitialised local arrays happen to hold.\<close>

definition ex_scancodes0 :: "u8 list" where
  "ex_scancodes0 = [0xAA, 0xAA, 0xAA, 0xAA, 0xAA, 0xAA, 0xAA, 0xAA]"

definition ex_keycodes0 :: "u16 list" where
  "ex_keycodes0 = [0xBBBB, 0xBBBB, 0xBBBB, 0xBBBB, 0xBBBB, 0xBBBB, 0xBBBB, 0xBBBB]"

text \<open>
  Three FIFO contents, each with an occupancy of 1 in the status register: the positions
  (0,0), (0,1), (1,0), an L shape; the Fn key with (0,0) and (1,1); and (0,0) with (1,1)
  after the key codes 1 and 48 have been reported as pressed.
\<close>

definition ex_ghost :: tegra_kbc where
  "ex_ghost = ex_held\<lparr>regs := (regs ex_held)(KBC_INT_0 := 0x10, KBC_KP_ENT0_0 := 0x888180)\<rparr>"

definition ex_fn :: tegra_kbc where
  "ex_fn = ex_held\<lparr>regs := (regs ex_held)(KBC_INT_0 := 0x10, KBC_KP_ENT0_0 := 0x898082)\<rparr>"

definition ex_two :: tegra_kbc where
  "ex_two = ex_kbc\<lparr>regs := (regs ex_kbc)(KBC_INT_0 := 0x10, KBC_KP_ENT0_0 := 0x8980),
                   events := [EV_MSC_SCAN 0, EV_KEY 1 1, EV_MSC_SCAN 47, EV_KEY 48 1, EV_SYN],
                   current_keys := [1, 48, 0, 0, 0, 0, 0, 0], num_pressed_keys := 2\<rparr>"

section \<open>Device stop and the interrupt handler\<close>

lemma stop_twice:
  "tegra_kbc_stop (tegra_kbc_stop s) =
     (tegra_kbc_stop s)\<lparr>mmio_log := mmio_log (tegra_kbc_stop s) @
        [Readl KBC_CONTROL_0, Writel KBC_CONTROL_0 (regs (tegra_kbc_stop s) KBC_CONTROL_0)]\<rparr>"
  by (simp add: tegra_kbc_stop_def readl_def writel_def disable_irq_def del_timer_sync_def
      clk_disable_unprepare_def Let_def)

lemma stop_fields:
  "regs (tegra_kbc_stop s) KBC_CONTROL_0 AND KBC_CONTROL_KBC_EN = 0 \<and>
   \<not> irq_enabled (tegra_kbc_stop s) \<and> timer (tegra_kbc_stop s) = None \<and>
   \<not> clk_enabled (tegra_kbc_stop s) \<and> is_open (tegra_kbc_stop s) = 0"
  by (simp add: tegra_kbc_stop_def readl_def writel_def disable_irq_def del_timer_sync_def
      clk_disable_unprepare_def Let_def and.assoc KBC_CONTROL_KBC_EN_def)

text \<open>
  C9. Device stop is defined on every state, whatever the scan mode (threshold
  interrupt enabled or not, timer pending or not). After it the controller-enable bit
  is clear, the interrupt line is masked, no timer is pending, the clock is off and
  \<open>is_open\<close> is 0. A second stop right after the first leaves every field of the
  device as the first left it: it only repeats, in the trace of register accesses, the
  read of the control register and the write of the value that register already holds.
\<close>

theorem tegra_kbc_stop_idempotent:
  "regs (tegra_kbc_stop s) KBC_CONTROL_0 AND KBC_CONTROL_KBC_EN = 0 \<and>
   \<not> irq_enabled (tegra_kbc_stop s) \<and> timer (tegra_kbc_stop s) = None \<and>
   \<not> clk_enabled (tegra_kbc_stop s) \<and> is_open (tegra_kbc_stop s) = 0 \<and>
   tegra_kbc_stop (tegra_kbc_stop s) =
     (tegra_kbc_stop s)\<lparr>mmio_log := mmio_log (tegra_kbc_stop s) @
        [Readl KBC_CONTROL_0, Writel KBC_CONTROL_0 (regs (tegra_kbc_stop s) KBC_CONTROL_0)]\<rparr>"
  using stop_fields [of s] stop_twice [of s] by simp

lemma isr_log:
  "mmio_log (tegra_kbc_isr s) =
     mmio_log s @ [Readl KBC_INT_0, Writel KBC_INT_0 (regs s KBC_INT_0)] @
     (if regs s KBC_INT_0 AND KBC_INT_FIFO_CNT_INT_STATUS \<noteq> 0
      then [Readl KBC_CONTROL_0,
            Writel KBC_CONTROL_0 (regs s KBC_CONTROL_0 AND NOT KBC_CONTROL_FIFO_CNT_INT_EN)]
      else [])"
  by (simp add: tegra_kbc_isr_def readl_def writel_def tegra_kbc_set_fifo_interrupt_def
      mod_timer_def Let_def KBC_INT_0_def KBC_CONTROL_0_def)

lemma isr_frame:
  "regs s KBC_INT_0 AND KBC_INT_FIFO_CNT_INT_STATUS = 0 \<Longrightarrow>
   regs s KBC_INT_0 AND KBC_INT_KEYPRESS_INT_STATUS = 0 \<Longrightarrow>
   tegra_kbc_isr s =
     s\<lparr>mmio_log := mmio_log s @ [Readl KBC_INT_0, Writel KBC_INT_0 (regs s KBC_INT_0)]\<rparr>"
  by (simp add: tegra_kbc_isr_def readl_def writel_def Let_def)

lemma isr_writes:
  "writes_to KBC_INT_0 (mmio_log (tegra_kbc_isr s)) =
     writes_to KBC_INT_0 (mmio_log s) @ [regs s KBC_INT_0]"
  by (auto simp add: isr_log writes_to_def KBC_INT_0_def KBC_CONTROL_0_def)

text \<open>
  C10. The interrupt handler reads the interrupt-status register and writes the value
  read straight back to it: the trace gains that read and that write first, and the
  handler writes the status register exactly once. When neither the FIFO-threshold bit
  nor the keypress bit is set in the value read, that read and that write are all the
  handler does: the timer, the control register, \<open>current_keys\<close>,
  \<open>num_pressed_keys\<close>, \<open>keypress_caused_wake\<close> and every other field are unchanged.
\<close>

theorem tegra_kbc_isr_acknowledges:
  "(\<exists>rest. mmio_log (tegra_kbc_isr s) =
       mmio_log s @ [Readl KBC_INT_0, Writel KBC_INT_0 (regs s KBC_INT_0)] @ rest) \<and>
   writes_to KBC_INT_0 (mmio_log (tegra_kbc_isr s)) =
     writes_to KBC_INT_0 (mmio_log s) @ [regs s KBC_INT_0] \<and>
   (regs s KBC_INT_0 AND KBC_INT_FIFO_CNT_INT_STATUS = 0 \<and>
    regs s KBC_INT_0 AND KBC_INT_KEYPRESS_INT_STATUS = 0 \<longrightarrow>
    tegra_kbc_isr s =
      s\<lparr>mmio_log := mmio_log s @ [Readl KBC_INT_0, Writel KBC_INT_0 (regs s KBC_INT_0)]\<rparr>)"
  using isr_log [of s] isr_frame [of s] isr_writes [of s] by simp

theorem tegra_kbc_isr_acknowledges_witness:
  "regs (ex_kbc\<lparr>regs := (regs ex_kbc)(KBC_INT_0 := 0x10)\<rparr>) KBC_INT_0
     AND KBC_INT_FIFO_CNT_INT_STATUS = 0 \<and>
   regs (ex_kbc\<lparr>regs := (regs ex_kbc)(KBC_INT_0 := 0x10)\<rparr>) KBC_INT_0
     AND KBC_INT_KEYPRESS_INT_STATUS = 0 \<and>
   tegra_kbc_isr (ex_kbc\<lparr>regs := (regs ex_kbc)(KBC_INT_0 := 0x10)\<rparr>) =
     ex_kbc\<lparr>regs := (regs ex_kbc)(KBC_INT_0 := 0x10),
            mmio_log := [Readl KBC_INT_0, Writel KBC_INT_0 0x10]\<rparr>"
  using tegra_kbc_isr_acknowledges [of "ex_kbc\<lparr>regs := (regs ex_kbc)(KBC_INT_0 := 0x10)\<rparr>"]
  by (simp add: ex_kbc_def KBC_INT_FIFO_CNT_INT_STATUS_def KBC_INT_KEYPRESS_INT_STATUS_def)

section \<open>The loops that report keys\<close>

lemma map_nth_take: "n \<le> length xs \<Longrightarrow> map ((!) xs) [0..<n] = take n xs"
  by (induction n) (simp_all add: take_Suc_conv_app_nth)

lemma released_scan_le: "j \<le> n \<Longrightarrow> released_scan k new n j \<le> n"
  by (induction k new n j rule: released_scan.induct) (simp add: released_scan.simps)

lemma released_scan_eq:
  "j \<le> n \<Longrightarrow> (released_scan k new n j = n) = (\<forall>i. j \<le> i \<and> i < n \<longrightarrow> new ! i \<noteq> k)"
proof (induction k new n j rule: released_scan.induct)
  case (1 k new n j)
  show ?case
  proof (cases "j < n")
    case False
    with "1.prems" show ?thesis by (auto simp add: released_scan.simps)
  next
    case jn: True
    show ?thesis
    proof (cases "k = new ! j")
      case True
      with jn show ?thesis by (auto simp add: released_scan.simps)
    next
      case False
      have "(\<forall>i. j + 1 \<le> i \<and> i < n \<longrightarrow> new ! i \<noteq> k) = (\<forall>i. j \<le> i \<and> i < n \<longrightarrow> new ! i \<noteq> k)"
      proof -
        have "\<And>i. (j \<le> i) = (i = j \<or> j + 1 \<le> i)" by arith
        with False show ?thesis by auto
      qed
      with "1.IH" [OF jn False] jn False show ?thesis
        by (simp add: released_scan.simps)
    qed
  qed
qed

lemma released_scan_absent:
  "n \<le> length new \<Longrightarrow> (released_scan k new n 0 = n) = (k \<notin> set (take n new))"
  by (auto simp add: released_scan_eq in_set_conv_nth)

lemma released_fold:
  "n \<le> length new \<Longrightarrow>
   fold (released_step old new n) [0..<m] s =
     s\<lparr>events := events s @ released_events (map ((!) old) [0..<m]) (take n new)\<rparr>"
  by (induction m)
     (simp_all add: released_events_def released_step_def released_scan_absent
        input_report_key_def Let_def)

lemma report_released:
  "n \<le> length new \<Longrightarrow> m \<le> length old \<Longrightarrow>
   tegra_kbc_report_released_keys old m new n s =
     s\<lparr>events := events s @ released_events (take m old) (take n new)\<rparr>"
  by (simp add: tegra_kbc_report_released_keys_def released_fold map_nth_take)

lemma pressed_fold:
  "fold (pressed_step scs kcs) [0..<n] s =
     s\<lparr>events := events s @ pressed_events (map ((!) scs) [0..<n]) (map ((!) kcs) [0..<n])\<rparr>"
  by (induction n)
     (simp_all add: pressed_events_def pressed_step_def input_report_key_def
        input_event_msc_scan_def)

lemma report_pressed:
  "n \<le> length scs \<Longrightarrow> n \<le> length kcs \<Longrightarrow>
   tegra_kbc_report_pressed_keys scs kcs n s =
     s\<lparr>events := events s @ pressed_events (take n scs) (take n kcs)\<rparr>"
  by (simp add: tegra_kbc_report_pressed_keys_def pressed_fold map_nth_take)

lemma release_fold:
  "n \<le> length (current_keys s) \<Longrightarrow>
   fold release_step [0..<n] s =
     s\<lparr>events := events s @ map (\<lambda>k. EV_KEY k 0) (take n (current_keys s))\<rparr>"
  by (induction n) (simp_all add: release_step_def input_report_key_def take_Suc_conv_app_nth)

section \<open>The timer callback on an empty FIFO\<close>

text \<open>
  C3. When the timer callback reads a FIFO occupancy of zero, it emits one release
  event for each entry of \<^verbatim>\<open>current_keys[0..num_pressed_keys)\<close> in the stored order,
  then one synchronisation event; \<open>num_pressed_keys\<close> becomes 0; the control
  register is rewritten with the FIFO-threshold interrupt bit set; and nothing else
  changes, so the timer is not armed again.
\<close>

theorem tegra_kbc_keypress_timer_idle:
  "num_pressed_keys s \<le> length (current_keys s) \<Longrightarrow>
   drop_bit 4 (regs s KBC_INT_0) AND 0xf = 0 \<Longrightarrow>
   tegra_kbc_keypress_timer c sc0 kc0 s =
     s\<lparr>regs := (regs s)(KBC_CONTROL_0 := regs s KBC_CONTROL_0 OR KBC_CONTROL_FIFO_CNT_INT_EN),
       mmio_log := mmio_log s @ [Readl KBC_INT_0, Readl KBC_CONTROL_0,
          Writel KBC_CONTROL_0 (regs s KBC_CONTROL_0 OR KBC_CONTROL_FIFO_CNT_INT_EN)],
       events := events s @ map (\<lambda>k. EV_KEY k 0) (CurrentKeys s) @ [EV_SYN],
       num_pressed_keys := 0\<rparr>"
  by (simp add: tegra_kbc_keypress_timer_def readl_def writel_def release_fold
      input_sync_def tegra_kbc_set_fifo_interrupt_def Let_def CurrentKeys_def)

theorem tegra_kbc_keypress_timer_idle_witness:
  "num_pressed_keys ex_held \<le> length (current_keys ex_held) \<and>
   drop_bit 4 (regs ex_held KBC_INT_0) AND 0xf = 0 \<and>
   events (tegra_kbc_keypress_timer ex_consts [] [] ex_held) =
     [EV_KEY 30 0, EV_KEY 48 0, EV_SYN] \<and>
   CurrentKeys (tegra_kbc_keypress_timer ex_consts [] [] ex_held) = [] \<and>
   regs (tegra_kbc_keypress_timer ex_consts [] [] ex_held) KBC_CONTROL_0 = 8 \<and>
   timer (tegra_kbc_keypress_timer ex_consts [] [] ex_held) = None"
  using tegra_kbc_keypress_timer_idle [of ex_held ex_consts "[]" "[]"]
  by (simp add: ex_held_def ex_kbc_def CurrentKeys_def KBC_CONTROL_FIFO_CNT_INT_EN_def)

section \<open>The FIFO entry format\<close>

lemma and_7_take_bit: "(x::'a::len word) AND 7 = take_bit 3 x"
  by (simp add: take_bit_eq_mask mask_eq_exp_minus_1)

lemma and_15_take_bit: "(x::'a::len word) AND 15 = take_bit 4 x"
  by (simp add: take_bit_eq_mask mask_eq_exp_minus_1)

lemma and_128_bit: "((v::u32) AND 128 \<noteq> 0) = bit v 7"
  using and_exp_eq_0_iff_not_bit[of v 7] by simp

lemma cv_valid: "((v::u32) AND 0x80 \<noteq> 0) = lane_valid (ucast v)"
  by (simp add: and_128_bit lane_valid_def bit_simps)

lemma cv_scancode: "(ucast (MATRIX_SCAN_CODE (drop_bit 3 v AND 0x0f) ((v::u32) AND 0x07) KBC_ROW_SHIFT) :: u8) = lane_scancode (ucast v)"
  apply (simp add: MATRIX_SCAN_CODE_def lane_scancode_def lane_row_def lane_column_def KBC_ROW_SHIFT_def and_7_take_bit and_15_take_bit)
  apply (rule bit_word_eqI)
  apply (auto simp add: bit_simps )
  done

lemma sc_row: "drop_bit KBC_ROW_SHIFT (lane_scancode b) = lane_row b"
  apply (simp add: lane_scancode_def lane_row_def lane_column_def KBC_ROW_SHIFT_def)
  apply (rule bit_word_eqI)
  apply (auto simp add: bit_simps )
  done

lemma sc_col: "lane_scancode b AND 0x07 = lane_column b"
  apply (simp add: lane_scancode_def lane_row_def lane_column_def KBC_ROW_SHIFT_def and_7_take_bit)
  apply (rule bit_word_eqI)
  apply (auto simp add: bit_simps )
  done

lemma sc_low: "lane_scancode b = take_bit 7 b"
  apply (simp add: lane_scancode_def lane_row_def lane_column_def KBC_ROW_SHIFT_def)
  apply (rule bit_word_eqI)
  apply (auto simp add: bit_simps )
  done

section \<open>The decoding loop\<close>

lemma sample_upto_Suc:
  "sample_upto c s (Suc k) =
     sample_upto c s k @ (if reported_lane c s (fifo_lane s k) then [fifo_lane s k] else [])"
  by (simp add: sample_upto_def)

lemma fn_upto_Suc:
  "fn_upto c s (Suc k) =
     (fn_upto c s k \<or> lane_valid (fifo_lane s k) \<and> lane_is_fn c s (fifo_lane s k))"
  by (simp add: fn_upto_def)

lemma sample_upto_length: "length (sample_upto c s k) \<le> k"
  using length_filter_le [of "reported_lane c s" "map (fifo_lane s) [0..<k]"]
  by (simp add: sample_upto_def)

lemma lane_val_start: "k mod 4 = 0 \<Longrightarrow> regs s (KBC_KP_ENT0_0 + of_nat k) = lane_val s k"
proof -
  assume a: "k mod 4 = 0"
  then have "k = 4 * (k div 4)" by presburger
  then have "(of_nat k :: u32) = 4 * of_nat (k div 4)"
    by (metis of_nat_mult of_nat_numeral)
  with a show ?thesis by (simp add: lane_val_def fifo_word_def)
qed

lemma lane_val_next: "Suc k mod 4 \<noteq> 0 \<Longrightarrow> drop_bit 8 (lane_val s k) = lane_val s (Suc k)"
proof -
  assume a: "Suc k mod 4 \<noteq> 0"
  then have m: "Suc k mod 4 = k mod 4 + 1" and d: "Suc k div 4 = k div 4"
    by presburger+
  have "8 + 8 * (k mod 4) = 8 * (Suc k mod 4)" using m by simp
  then show ?thesis by (simp add: lane_val_def d)
qed

lemma lane_val_lane: "ucast (lane_val s k) = fifo_lane s k"
  by (simp add: lane_val_def fifo_lane_def)

lemma decode_step_inv:
  assumes inv: "decode_inv c s sc0 kc0 k l"
    and k: "k < length sc0" "k < length kc0"
    and s': "regs s' = regs s" "keycode s' = keycode s" "use_fn_map s' = use_fn_map s"
  shows "\<exists>l'. decode_step c k (s', l) =
           (if k mod 4 = 0 then s'\<lparr>mmio_log := mmio_log s' @ [Readl (KBC_KP_ENT0_0 + of_nat k)]\<rparr> else s', l')
         \<and> decode_inv c s sc0 kc0 (Suc k) l'"
proof -
  define b where "b = fifo_lane s k"
  define v where "v = lane_val s k"
  have nk: "num_down l \<le> k"
    using inv sample_upto_length [of c s k] by (simp add: decode_inv_def)
  have ls: "num_down l < length (scancodes l)" "num_down l < length (keycodes l)"
    using inv nk k by (simp_all add: decode_inv_def)
  have vv: "(if k mod 4 = 0 then regs s' (KBC_KP_ENT0_0 + of_nat k) else val l) = v"
    using inv by (simp add: decode_inv_def v_def lane_val_start s')
  have ub: "ucast v = b" by (simp add: v_def b_def lane_val_lane)
  have nx: "Suc k mod 4 \<noteq> 0 \<longrightarrow> drop_bit 8 v = lane_val s (Suc k)"
    by (simp add: v_def lane_val_next)
  have i: "num_down l = length (sample_upto c s k)"
    "length (scancodes l) = length sc0" "length (keycodes l) = length kc0"
    "take (num_down l) (scancodes l) = map lane_scancode (sample_upto c s k)"
    "take (num_down l) (keycodes l) =
        map (\<lambda>b. keycode s ! unat (lane_scancode b)) (sample_upto c s k)"
    "fn_keypress l = fn_upto c s k"
    "\<not> key_in_same_row l" "\<not> key_in_same_col l"
    using inv unfolding decode_inv_def by blast+
  show ?thesis
  proof (cases "lane_valid b")
    case False
    then have "decode_step c k (s', l) =
           (if k mod 4 = 0 then s'\<lparr>mmio_log := mmio_log s' @ [Readl (KBC_KP_ENT0_0 + of_nat k)]\<rparr> else s', l\<lparr>val := drop_bit 8 v\<rparr>)"
      using vv by (auto simp add: decode_step_def readl_def Let_def cv_valid ub split: if_splits)
    moreover have "decode_inv c s sc0 kc0 (Suc k) (l\<lparr>val := drop_bit 8 v\<rparr>)"
      using i False nx by (simp add: decode_inv_def sample_upto_Suc fn_upto_Suc reported_lane_def b_def [symmetric])
    ultimately show ?thesis by blast
  next
    case valid: True
    show ?thesis
    proof (cases "lane_is_fn c s b")
      case True
      define l' where "l' = l\<lparr>scancodes := (scancodes l)[num_down l := lane_scancode b],
               keycodes := (keycodes l)[num_down l := keycode s ! unat (lane_scancode b)], fn_keypress := True, val := drop_bit 8 v\<rparr>"
      have "decode_step c k (s', l) =
           (if k mod 4 = 0 then s'\<lparr>mmio_log := mmio_log s' @ [Readl (KBC_KP_ENT0_0 + of_nat k)]\<rparr> else s', l')"
        using vv valid True ls
        by (auto simp add: decode_step_def readl_def Let_def cv_valid cv_scancode ub s' lane_is_fn_def l'_def split: if_splits)
      moreover have "decode_inv c s sc0 kc0 (Suc k) l'"
        using i valid True nx ls
        by (simp add: decode_inv_def sample_upto_Suc fn_upto_Suc reported_lane_def b_def [symmetric] l'_def)
      ultimately show ?thesis by blast
    next
      case False
      define l' where "l' = l\<lparr>scancodes := (scancodes l)[num_down l := lane_scancode b],
               keycodes := (keycodes l)[num_down l := keycode s ! unat (lane_scancode b)], num_down := num_down l + 1, val := drop_bit 8 v\<rparr>"
      have "decode_step c k (s', l) =
           (if k mod 4 = 0 then s'\<lparr>mmio_log := mmio_log s' @ [Readl (KBC_KP_ENT0_0 + of_nat k)]\<rparr> else s', l')"
        using vv valid False ls
        by (auto simp add: decode_step_def readl_def Let_def cv_valid cv_scancode ub s' lane_is_fn_def l'_def split: if_splits)
      moreover have "decode_inv c s sc0 kc0 (Suc k) l'"
        using i valid False nx ls
        by (simp add: decode_inv_def sample_upto_Suc fn_upto_Suc reported_lane_def b_def [symmetric] l'_def take_Suc_conv_app_nth)
      ultimately show ?thesis by blast
    qed
  qed
qed

lemma decode_inv_init: "decode_inv c s sc0 kc0 0 (report_locals_init sc0 kc0)"
  by (simp add: decode_inv_def report_locals_init_def sample_upto_def fn_upto_def)

lemma decode_reads_Suc:
  "decode_reads (Suc k) =
     decode_reads k @ (if k mod 4 = 0 then [Readl (KBC_KP_ENT0_0 + of_nat k)] else [])"
  by (simp add: decode_reads_def)

lemma decode_fold:
  "k \<le> length sc0 \<Longrightarrow> k \<le> length kc0 \<Longrightarrow>
   \<exists>l. fold (decode_step c) [0..<k] (s, report_locals_init sc0 kc0) =
          (s\<lparr>mmio_log := mmio_log s @ decode_reads k\<rparr>, l) \<and>
       decode_inv c s sc0 kc0 k l"
proof (induction k)
  case 0
  show ?case by (simp add: decode_inv_init decode_reads_def)
next
  case (Suc k)
  then obtain l where f: "fold (decode_step c) [0..<k] (s, report_locals_init sc0 kc0) =
          (s\<lparr>mmio_log := mmio_log s @ decode_reads k\<rparr>, l)"
    and inv: "decode_inv c s sc0 kc0 k l" by auto
  from Suc.prems have k: "k < length sc0" "k < length kc0" by simp_all
  obtain l' where st: "decode_step c k (s\<lparr>mmio_log := mmio_log s @ decode_reads k\<rparr>, l) =
           (if k mod 4 = 0
            then s\<lparr>mmio_log := mmio_log s @ decode_reads k\<rparr>
                  \<lparr>mmio_log := mmio_log (s\<lparr>mmio_log := mmio_log s @ decode_reads k\<rparr>) @
                     [Readl (KBC_KP_ENT0_0 + of_nat k)]\<rparr>
            else s\<lparr>mmio_log := mmio_log s @ decode_reads k\<rparr>, l')"
    and inv': "decode_inv c s sc0 kc0 (Suc k) l'"
    using decode_step_inv [OF inv k, of "s\<lparr>mmio_log := mmio_log s @ decode_reads k\<rparr>"]
    by auto
  have "fold (decode_step c) [0..<Suc k] (s, report_locals_init sc0 kc0) =
          (s\<lparr>mmio_log := mmio_log s @ decode_reads (Suc k)\<rparr>, l')"
    using f st by (simp add: decode_reads_Suc)
  with inv' show ?case by blast
qed

lemma decode_reads_words:
  "decode_reads k = map (\<lambda>j. Readl (KBC_KP_ENT0_0 + 4 * of_nat j)) [0..<(k + 3) div 4]"
proof (induction k)
  case 0
  show ?case by (simp add: decode_reads_def)
next
  case (Suc k)
  show ?case
  proof (cases "k mod 4 = 0")
    case True
    then have d: "(Suc k + 3) div 4 = Suc (k div 4)" "(k + 3) div 4 = k div 4" by presburger+
    from True have "k = 4 * (k div 4)" by presburger
    then have "(of_nat k :: u32) = 4 * of_nat (k div 4)" by (metis of_nat_mult of_nat_numeral)
    with True Suc d show ?thesis by (simp add: decode_reads_Suc)
  next
    case False
    then have "(Suc k + 3) div 4 = (k + 3) div 4" by presburger
    with False Suc show ?thesis by (simp add: decode_reads_Suc)
  qed
qed

section \<open>The ghost check\<close>

lemma ghost_inner_fold:
  "fold (ghost_inner_step cc cr) js l =
     l\<lparr>key_in_same_col := key_in_same_col l \<or> (\<exists>j\<in>set js. scancodes l ! j AND 0x07 = cc),
       key_in_same_row := key_in_same_row l \<or>
          (\<exists>j\<in>set js. drop_bit KBC_ROW_SHIFT (scancodes l ! j) = cr)\<rparr>"
proof (induction js arbitrary: l)
  case Nil
  show ?case by simp
next
  case (Cons j js)
  have st: "ghost_inner_step cc cr j l =
      l\<lparr>key_in_same_col := key_in_same_col l \<or> scancodes l ! j AND 0x07 = cc,
        key_in_same_row := key_in_same_row l \<or> drop_bit KBC_ROW_SHIFT (scancodes l ! j) = cr\<rparr>"
    by (simp add: ghost_inner_step_def Let_def)
  show ?case unfolding fold_simps Cons st by simp
qed

lemma ghost_outer_fold:
  "fold ghost_outer_step ks l =
     l\<lparr>key_in_same_col := key_in_same_col l \<or>
          (\<exists>i\<in>set ks. \<exists>j\<in>set [i + 1..<num_down l].
                 scancodes l ! j AND 0x07 = scancodes l ! i AND 0x07),
       key_in_same_row := key_in_same_row l \<or>
          (\<exists>i\<in>set ks. \<exists>j\<in>set [i + 1..<num_down l].
                 drop_bit KBC_ROW_SHIFT (scancodes l ! j) = drop_bit KBC_ROW_SHIFT (scancodes l ! i))\<rparr>"
proof (induction ks arbitrary: l)
  case Nil
  show ?case by simp
next
  case (Cons k ks)
  have st: "ghost_outer_step k l =
      l\<lparr>key_in_same_col := key_in_same_col l \<or>
          (\<exists>j\<in>set [k + 1..<num_down l]. scancodes l ! j AND 0x07 = scancodes l ! k AND 0x07),
        key_in_same_row := key_in_same_row l \<or>
          (\<exists>j\<in>set [k + 1..<num_down l].
                 drop_bit KBC_ROW_SHIFT (scancodes l ! j) = drop_bit KBC_ROW_SHIFT (scancodes l ! k))\<rparr>"
    by (simp add: ghost_outer_step_def ghost_inner_fold Let_def)
  show ?case unfolding fold_simps Cons st by simp
qed

lemma some_pair_nth:
  "some_pair P xs = (\<exists>i j. i < j \<and> j < length xs \<and> P (xs ! i) (xs ! j))"
proof (induction xs)
  case Nil
  show ?case by simp
next
  case (Cons x xs)
  have "(\<exists>i j. i < j \<and> j < length (x # xs) \<and> P ((x # xs) ! i) ((x # xs) ! j)) =
        ((\<exists>j. j < length xs \<and> P x (xs ! j)) \<or>
         (\<exists>i j. i < j \<and> j < length xs \<and> P (xs ! i) (xs ! j)))" (is "?L = (?A \<or> ?B)")
  proof
    assume ?L
    then obtain i j where ij: "i < j" "j < length (x # xs)" "P ((x # xs) ! i) ((x # xs) ! j)"
      by blast
    then obtain j' where j': "j = Suc j'" by (cases j) auto
    show "?A \<or> ?B"
    proof (cases i)
      case 0
      with ij j' have "j' < length xs \<and> P x (xs ! j')" by simp
      then show ?thesis by blast
    next
      case (Suc i')
      with ij j' have "i' < j' \<and> j' < length xs \<and> P (xs ! i') (xs ! j')" by simp
      then show ?thesis by blast
    qed
  next
    assume "?A \<or> ?B"
    then show ?L
    proof
      assume ?A
      then obtain j where "j < length xs" "P x (xs ! j)" by blast
      then have "0 < Suc j \<and> Suc j < length (x # xs) \<and> P ((x # xs) ! 0) ((x # xs) ! Suc j)"
        by simp
      then show ?L by blast
    next
      assume ?B
      then obtain i j where "i < j" "j < length xs" "P (xs ! i) (xs ! j)" by blast
      then have "Suc i < Suc j \<and> Suc j < length (x # xs) \<and> P ((x # xs) ! Suc i) ((x # xs) ! Suc j)"
        by simp
      then show ?L by blast
    qed
  qed
  moreover have "(\<exists>y\<in>set xs. P x y) = ?A" unfolding Bex_def in_set_conv_nth by blast
  ultimately show ?case using Cons by simp
qed

lemma pair_upt:
  "length bs = n \<Longrightarrow> take n xs = map f bs \<Longrightarrow>
   (\<exists>i\<in>set [0..<n]. \<exists>j\<in>set [i + 1..<n]. g (xs ! j) = g (xs ! i)) =
   some_pair (\<lambda>a b. g (f a) = g (f b)) bs"
proof -
  assume n: "length bs = n" and t: "take n xs = map f bs"
  have nth: "\<And>i. i < n \<Longrightarrow> xs ! i = f (bs ! i)"
  proof -
    fix i assume i: "i < n"
    then have "xs ! i = take n xs ! i" by simp
    also have "\<dots> = f (bs ! i)" using i n by (simp add: t)
    finally show "xs ! i = f (bs ! i)" .
  qed
  have "(\<exists>i\<in>set [0..<n]. \<exists>j\<in>set [i + 1..<n]. g (xs ! j) = g (xs ! i)) =
        (\<exists>i j. i < j \<and> j < n \<and> g (f (bs ! i)) = g (f (bs ! j)))" (is "?L = ?R")
  proof
    assume ?L
    then obtain i j where "i < n" "Suc i \<le> j" "j < n" "g (xs ! j) = g (xs ! i)" by auto
    then have "i < j \<and> j < n \<and> g (f (bs ! i)) = g (f (bs ! j))" by (simp add: nth)
    then show ?R by blast
  next
    assume ?R
    then obtain i j where ij: "i < j" "j < n" "g (f (bs ! i)) = g (f (bs ! j))" by blast
    then have "i < n" by simp
    with ij have "i \<in> set [0..<n] \<and> j \<in> set [i + 1..<n] \<and> g (xs ! j) = g (xs ! i)"
      by (simp add: nth)
    then show ?L by blast
  qed
  then show ?thesis by (simp add: some_pair_nth n)
qed

lemma locals_flags_False:
  "\<not> key_in_same_row l \<Longrightarrow> \<not> key_in_same_col l \<Longrightarrow>
   l\<lparr>key_in_same_col := False, key_in_same_row := False\<rparr> = l"
  by (cases l) simp

lemma ghost_check_eq:
  assumes n: "num_down l = length bs" and t: "take (num_down l) (scancodes l) = map lane_scancode bs"
    and f: "\<not> key_in_same_row l" "\<not> key_in_same_col l"
  shows "ghost_check s l =
     l\<lparr>key_in_same_col := use_ghost_filter s \<and> 3 \<le> length bs \<and> column_collision bs,
       key_in_same_row := use_ghost_filter s \<and> 3 \<le> length bs \<and> row_collision bs\<rparr>"
proof -
  note c = pair_upt [OF n [symmetric] t, of "\<lambda>sc. sc AND 0x07"]
  note r = pair_upt [OF n [symmetric] t, of "drop_bit KBC_ROW_SHIFT"]
  show ?thesis
  proof (cases "use_ghost_filter s \<and> 3 \<le> length bs")
    case True
    then show ?thesis
      using f c r
      by (simp add: ghost_check_def ghost_outer_fold n sc_col sc_row column_collision_def
          row_collision_def)
  next
    case False
    then have "ghost_check s l = l" by (auto simp add: ghost_check_def n)
    with False show ?thesis using locals_flags_False [OF f] by auto
  qed
qed

section \<open>The translation on a Fn keypress\<close>

lemma list_update_map_take:
  "m < length xs \<Longrightarrow>
   (map f (take m xs) @ drop m xs)[m := f (xs ! m)] = map f (take (Suc m) xs) @ drop (Suc m) xs"
  by (simp add: list_update_append take_Suc_conv_app_nth upd_conv_take_nth_drop)

lemma list_update_map_take2:
  "m < length ys \<Longrightarrow> m < length xs \<Longrightarrow>
   (map f (take m xs) @ drop m ys)[m := f (xs ! m)] = map f (take (Suc m) xs) @ drop (Suc m) ys"
  by (simp add: list_update_append take_Suc_conv_app_nth upd_conv_take_nth_drop)

lemma fn_fold:
  "m \<le> length (scancodes l) \<Longrightarrow> m \<le> length (keycodes l) \<Longrightarrow>
   fold (fn_step c s) [0..<m] l =
     l\<lparr>scancodes := map (\<lambda>sc. sc + of_nat (KBC_MAX_KEY c)) (take m (scancodes l)) @
                      drop m (scancodes l),
       keycodes := map (\<lambda>sc. keycode s ! unat (sc + of_nat (KBC_MAX_KEY c))) (take m (scancodes l)) @
                     drop m (keycodes l)\<rparr>"
proof (induction m)
  case 0
  show ?case by simp
next
  case (Suc m)
  then have ih: "fold (fn_step c s) [0..<m] l =
     l\<lparr>scancodes := map (\<lambda>sc. sc + of_nat (KBC_MAX_KEY c)) (take m (scancodes l)) @
                      drop m (scancodes l),
       keycodes := map (\<lambda>sc. keycode s ! unat (sc + of_nat (KBC_MAX_KEY c))) (take m (scancodes l)) @
                     drop m (keycodes l)\<rparr>" by simp
  have e: "fold (fn_step c s) [0..<Suc m] l = fn_step c s m (fold (fn_step c s) [0..<m] l)"
    by simp
  from Suc.prems have m: "m < length (scancodes l)" "m < length (keycodes l)" by simp_all
  note u1 = list_update_map_take [OF m(1), of "\<lambda>sc. sc + of_nat (KBC_MAX_KEY c)"]
  note u2 = list_update_map_take2 [OF m(2) m(1),
      of "\<lambda>sc. keycode s ! unat (sc + of_nat (KBC_MAX_KEY c))"]
  show ?case unfolding e ih using m
    by (simp add: fn_step_def Let_def nth_append u1 u2)
qed

lemma fn_translate_eq:
  assumes n: "num_down l \<le> length (scancodes l)" "num_down l \<le> length (keycodes l)"
    and nb: "num_down l = length bs"
    and t: "take (num_down l) (scancodes l) = map lane_scancode bs"
      "take (num_down l) (keycodes l) = map (\<lambda>b. keycode s ! unat (lane_scancode b)) bs"
  shows "take (num_down (fn_translate c s l)) (scancodes (fn_translate c s l)) =
           map (\<lambda>b. if fn_keypress l then lane_scancode b + of_nat (KBC_MAX_KEY c)
                     else lane_scancode b) bs"
    and "take (num_down (fn_translate c s l)) (keycodes (fn_translate c s l)) =
           map (\<lambda>b. keycode s ! unat (if fn_keypress l then lane_scancode b + of_nat (KBC_MAX_KEY c)
                     else lane_scancode b)) bs"
    and "num_down (fn_translate c s l) = num_down l"
    and "length (scancodes (fn_translate c s l)) = length (scancodes l)"
    and "length (keycodes (fn_translate c s l)) = length (keycodes l)"
    and "key_in_same_col (fn_translate c s l) = key_in_same_col l"
    and "key_in_same_row (fn_translate c s l) = key_in_same_row l"
  using n t nb by (simp_all add: fn_translate_def fn_fold comp_def)

section \<open>A sample from the FIFO to the input core\<close>

lemma sample_locals_eq:
  assumes k: "KBC_MAX_KPENT c \<le> length sc0" "KBC_MAX_KPENT c \<le> length kc0"
  shows "\<exists>l. sample_locals c sc0 kc0 s =
            (s\<lparr>mmio_log := mmio_log s @ decode_reads (KBC_MAX_KPENT c)\<rparr>, l) \<and>
          num_down l = length (sample_lanes c s) \<and>
          length (scancodes l) = length sc0 \<and> length (keycodes l) = length kc0 \<and>
          take (num_down l) (scancodes l) = sample_scancodes c s \<and>
          take (num_down l) (keycodes l) = sample_keycodes c s \<and>
          key_in_same_col l = (use_ghost_filter s \<and> 3 \<le> length (sample_lanes c s) \<and>
                               column_collision (sample_lanes c s)) \<and>
          key_in_same_row l = (use_ghost_filter s \<and> 3 \<le> length (sample_lanes c s) \<and>
                               row_collision (sample_lanes c s))"
proof -
  define s1 where "s1 = s\<lparr>mmio_log := mmio_log s @ decode_reads (KBC_MAX_KPENT c)\<rparr>"
  define bs where "bs = sample_lanes c s"
  obtain l1 where d: "decode_sample c sc0 kc0 s = (s1, l1)"
    and inv: "decode_inv c s sc0 kc0 (KBC_MAX_KPENT c) l1"
    using decode_fold [OF k, of c s] by (auto simp add: decode_sample_def s1_def)
  have i: "num_down l1 = length bs"
    "length (scancodes l1) = length sc0" "length (keycodes l1) = length kc0"
    "take (num_down l1) (scancodes l1) = map lane_scancode bs"
    "take (num_down l1) (keycodes l1) = map (\<lambda>b. keycode s ! unat (lane_scancode b)) bs"
    "fn_keypress l1 = sample_fn c s"
    "\<not> key_in_same_row l1" "\<not> key_in_same_col l1"
    using inv unfolding decode_inv_def bs_def sample_lanes_def sample_fn_def by blast+
  have nk: "num_down l1 \<le> KBC_MAX_KPENT c"
    using sample_upto_length [of c s "KBC_MAX_KPENT c"] by (simp add: i(1) bs_def sample_lanes_def)
  define l2 where "l2 = ghost_check s1 l1"
  have g: "l2 = l1\<lparr>key_in_same_col := use_ghost_filter s \<and> 3 \<le> length bs \<and> column_collision bs,
       key_in_same_row := use_ghost_filter s \<and> 3 \<le> length bs \<and> row_collision bs\<rparr>"
    using ghost_check_eq [OF i(1) i(4) i(7) i(8), of s1] by (simp add: l2_def s1_def)
  have n2: "num_down l2 \<le> length (scancodes l2)" "num_down l2 \<le> length (keycodes l2)"
    using nk k i(2) i(3) by (simp_all add: g)
  have t2: "take (num_down l2) (scancodes l2) = map lane_scancode bs"
      "take (num_down l2) (keycodes l2) = map (\<lambda>b. keycode s1 ! unat (lane_scancode b)) bs"
    using i(4) i(5) by (simp_all add: g s1_def)
  have nb2: "num_down l2 = length bs" using i(1) by (simp add: g)
  note f = fn_translate_eq [OF n2 nb2 t2, of c]
  define l3 where "l3 = fn_translate c s1 l2"
  have sl: "sample_locals c sc0 kc0 s = (s1, l3)"
    by (simp add: sample_locals_def d l3_def l2_def)
  have "num_down l3 = length (sample_lanes c s)"
    using f(3) i(1) by (simp add: l3_def g bs_def)
  moreover have "length (scancodes l3) = length sc0" "length (keycodes l3) = length kc0"
    using f(4) f(5) i(2) i(3) by (simp_all add: l3_def g)
  moreover have "take (num_down l3) (scancodes l3) = sample_scancodes c s"
    using f(1) i(6) by (simp add: l3_def g sample_scancodes_def bs_def)
  moreover have "take (num_down l3) (keycodes l3) = sample_keycodes c s"
    using f(2) i(6) by (simp add: l3_def g sample_keycodes_def sample_scancodes_def bs_def s1_def comp_def)
  moreover have "key_in_same_col l3 = (use_ghost_filter s \<and> 3 \<le> length (sample_lanes c s) \<and>
                               column_collision (sample_lanes c s))"
    using f(6) by (simp add: l3_def g bs_def)
  moreover have "key_in_same_row l3 = (use_ghost_filter s \<and> 3 \<le> length (sample_lanes c s) \<and>
                               row_collision (sample_lanes c s))"
    using f(7) by (simp add: l3_def g bs_def)
  ultimately show ?thesis using sl unfolding s1_def by blast
qed

lemma report_keys_eq:
  assumes pre: "report_pre c sc0 kc0 s"
  shows "if ghosted c s
         then tegra_kbc_report_keys c sc0 kc0 s = s\<lparr>mmio_log := mmio_log s @ fifo_reads c\<rparr>
         else \<exists>ck. tegra_kbc_report_keys c sc0 kc0 s =
                 s\<lparr>mmio_log := mmio_log s @ fifo_reads c,
                   events := events s @ released_events (CurrentKeys s) (sample_keycodes c s) @
                       pressed_events (sample_scancodes c s) (sample_keycodes c s) @ [EV_SYN],
                   current_keys := ck,
                   num_pressed_keys := length (sample_lanes c s)\<rparr> \<and>
               length ck = KBC_MAX_KPENT c \<and>
               take (length (sample_lanes c s)) ck = sample_keycodes c s"
proof -
  from pre have k: "KBC_MAX_KPENT c \<le> length sc0" "KBC_MAX_KPENT c \<le> length kc0"
    and l0: "length sc0 = KBC_MAX_KPENT c" "length kc0 = KBC_MAX_KPENT c"
    and ck: "length (current_keys s) = KBC_MAX_KPENT c"
    and np: "num_pressed_keys s \<le> length (current_keys s)"
    by (simp_all add: report_pre_def)
  define s1 where "s1 = s\<lparr>mmio_log := mmio_log s @ decode_reads (KBC_MAX_KPENT c)\<rparr>"
  obtain l where sl: "sample_locals c sc0 kc0 s = (s1, l)"
    and n: "num_down l = length (sample_lanes c s)"
    and len: "length (scancodes l) = length sc0" "length (keycodes l) = length kc0"
    and t: "take (num_down l) (scancodes l) = sample_scancodes c s"
      "take (num_down l) (keycodes l) = sample_keycodes c s"
    and g: "key_in_same_col l = (use_ghost_filter s \<and> 3 \<le> length (sample_lanes c s) \<and>
                               column_collision (sample_lanes c s))"
      "key_in_same_row l = (use_ghost_filter s \<and> 3 \<le> length (sample_lanes c s) \<and>
                               row_collision (sample_lanes c s))"
    using sample_locals_eq [OF k, of s] unfolding s1_def by blast
  have nk: "num_down l \<le> KBC_MAX_KPENT c"
    using sample_upto_length [of c s "KBC_MAX_KPENT c"] by (simp add: n sample_lanes_def)
  have gh: "(key_in_same_col l \<and> key_in_same_row l) = ghosted c s"
    by (auto simp add: g ghosted_def)
  have r: "fifo_reads c = decode_reads (KBC_MAX_KPENT c)"
    by (simp add: fifo_reads_def decode_reads_words)
  show ?thesis
  proof (cases "ghosted c s")
    case True
    then have "tegra_kbc_report_keys c sc0 kc0 s = s1"
      using gh by (simp add: tegra_kbc_report_keys_def sl)
    with True show ?thesis by (simp add: s1_def r)
  next
    case False
    define nck where "nck = memcpy_keys c (current_keys s) (keycodes l)"
    have a: "num_down l \<le> length (keycodes l)" "num_down l \<le> length (scancodes l)"
      using nk len l0 by simp_all
    have b: "num_pressed_keys s1 \<le> length (current_keys s1)" using np by (simp add: s1_def)
    have ng: "(key_in_same_col l \<and> key_in_same_row l) = False" using False gh by simp
    have rel: "tegra_kbc_report_released_keys (current_keys s1) (num_pressed_keys s1)
                 (keycodes l) (num_down l) s1 =
               s1\<lparr>events := events s1 @ released_events
                     (take (num_pressed_keys s1) (current_keys s1))
                     (take (num_down l) (keycodes l))\<rparr>"
      by (rule report_released [OF a(1) b])
    have prs: "\<And>s2. tegra_kbc_report_pressed_keys (scancodes l) (keycodes l) (num_down l) s2 =
               s2\<lparr>events := events s2 @ pressed_events (take (num_down l) (scancodes l))
                     (take (num_down l) (keycodes l))\<rparr>"
      by (rule report_pressed [OF a(2) a(1)])
    have "tegra_kbc_report_keys c sc0 kc0 s =
           s1\<lparr>events := events s1 @ released_events
                     (take (num_pressed_keys s1) (current_keys s1)) (sample_keycodes c s) @
                       pressed_events (sample_scancodes c s) (sample_keycodes c s) @ [EV_SYN],
                   current_keys := memcpy_keys c (current_keys s1) (keycodes l),
                   num_pressed_keys := num_down l\<rparr>"
      by (simp add: ng tegra_kbc_report_keys_def sl Let_def rel prs t input_sync_def)
    then have "tegra_kbc_report_keys c sc0 kc0 s =
           s\<lparr>mmio_log := mmio_log s @ fifo_reads c,
                   events := events s @ released_events (CurrentKeys s) (sample_keycodes c s) @
                       pressed_events (sample_scancodes c s) (sample_keycodes c s) @ [EV_SYN],
                   current_keys := nck,
                   num_pressed_keys := length (sample_lanes c s)\<rparr>"
      by (simp add: s1_def r nck_def CurrentKeys_def n)
    moreover have "length nck = KBC_MAX_KPENT c"
      using len l0 ck by (simp add: nck_def memcpy_keys_def)
    moreover have "take (length (sample_lanes c s)) nck = sample_keycodes c s"
      using nk len l0 t(2) by (simp add: nck_def memcpy_keys_def n [symmetric] min_def)
    ultimately show ?thesis using False by auto
  qed
qed

section \<open>The example samples, evaluated\<close>

lemma upt8: "[0..<8] = [0, 1, 2, 3, 4, 5, 6, 7]"
  by (simp add: upt_rec)

lemma ex_consts_simps:
  "KBC_MAX_KPENT ex_consts = 8" "KBC_MAX_KEY ex_consts = 128" "KBC_MAX_ROW ex_consts = 16"
  "KEY_FN ex_consts = 0x1d0" "msecs_to_jiffies ex_consts m = m"
  by (simp_all add: ex_consts_def)

lemma ex_pre:
  "report_pre ex_consts ex_scancodes0 ex_keycodes0 ex_ghost"
  "report_pre ex_consts ex_scancodes0 ex_keycodes0 ex_fn"
  "report_pre ex_consts ex_scancodes0 ex_keycodes0 ex_two"
  by (simp_all add: report_pre_def ex_consts_simps ex_scancodes0_def ex_keycodes0_def ex_ghost_def
      ex_fn_def ex_two_def ex_held_def ex_kbc_def)

lemma ex_flags:
  "use_fn_map ex_ghost" "use_ghost_filter ex_ghost" "keycode ex_ghost = ex_keycode"
  "use_fn_map ex_fn" "use_ghost_filter ex_fn" "keycode ex_fn = ex_keycode"
  "use_fn_map ex_two" "use_ghost_filter ex_two" "keycode ex_two = ex_keycode"
  by (simp_all add: ex_ghost_def ex_fn_def ex_two_def ex_held_def ex_kbc_def)

lemma ex_keycode_nth: "n < 256 \<Longrightarrow> ex_keycode ! n = (if n = 2 then 0x1d0 else of_nat n + 1)"
  by (simp add: ex_keycode_def)

lemma ex_lanes:
  "map (fifo_lane ex_ghost) [0..<8] = [0x80, 0x81, 0x88, 0, 0, 0, 0, 0]"
  "map (fifo_lane ex_fn) [0..<8] = [0x82, 0x80, 0x89, 0, 0, 0, 0, 0]"
  "map (fifo_lane ex_two) [0..<8] = [0x80, 0x89, 0, 0, 0, 0, 0, 0]"
  by (simp_all add: upt8 fifo_lane_def fifo_word_def ex_ghost_def ex_fn_def ex_two_def ex_held_def
      ex_kbc_def KBC_KP_ENT0_0_def KBC_INT_0_def)

lemma ex_lane_scancode:
  "lane_scancode 0x80 = 0" "lane_scancode 0x81 = 1" "lane_scancode 0x82 = 2"
  "lane_scancode 0x88 = 8" "lane_scancode 0x89 = 9"
  by (simp_all add: lane_scancode_def lane_row_def lane_column_def KBC_ROW_SHIFT_def)

lemma ex_lane_valid:
  "lane_valid 0x80" "lane_valid 0x81" "lane_valid 0x82" "lane_valid 0x88" "lane_valid 0x89"
  "\<not> lane_valid 0"
  by (simp_all add: lane_valid_def)

lemma ex_sample_lanes:
  "sample_lanes ex_consts ex_ghost = [0x80, 0x81, 0x88]"
  "sample_lanes ex_consts ex_fn = [0x80, 0x89]"
  "sample_lanes ex_consts ex_two = [0x80, 0x89]"
  by (simp_all add: sample_lanes_def sample_upto_def ex_consts_simps ex_lanes reported_lane_def
      lane_is_fn_def ex_flags ex_lane_scancode ex_lane_valid ex_keycode_nth)

lemma ex_sample_fn:
  "\<not> sample_fn ex_consts ex_ghost" "sample_fn ex_consts ex_fn" "\<not> sample_fn ex_consts ex_two"
  by (simp_all add: sample_fn_def fn_upto_def ex_consts_simps ex_lanes lane_is_fn_def
      ex_flags ex_lane_scancode ex_lane_valid ex_keycode_nth)

lemma ex_ghosted:
  "ghosted ex_consts ex_ghost" "\<not> ghosted ex_consts ex_fn" "\<not> ghosted ex_consts ex_two"
  by (simp_all add: ghosted_def ex_sample_lanes ex_flags row_collision_def column_collision_def
      lane_row_def lane_column_def)

lemma ex_sample_scancodes:
  "sample_scancodes ex_consts ex_fn = [128, 137]"
  "sample_scancodes ex_consts ex_two = [0, 9]"
  by (simp_all add: sample_scancodes_def ex_sample_lanes ex_sample_fn ex_lane_scancode
      ex_consts_simps)

lemma ex_sample_keycodes:
  "sample_keycodes ex_consts ex_fn = [129, 138]"
  "sample_keycodes ex_consts ex_two = [1, 10]"
  by (simp_all add: sample_keycodes_def ex_sample_scancodes ex_flags ex_keycode_nth)

lemma ex_fifo_reads: "fifo_reads ex_consts = [Readl 0x30, Readl 0x34]"
  by (simp add: fifo_reads_def ex_consts_simps KBC_KP_ENT0_0_def upt_rec)

section \<open>The claims about one reported sample\<close>

lemma CurrentKeys_update:
  "CurrentKeys (s\<lparr>mmio_log := ml, events := ev, current_keys := ck, num_pressed_keys := n\<rparr>) =
     take n ck"
  by (simp add: CurrentKeys_def)

lemma sample_lanes_filter:
  "sample_lanes c s =
     filter (\<lambda>b. lane_valid b \<and> \<not> (use_fn_map s \<and> keycode s ! unat (lane_scancode b) = KEY_FN c))
       (map (fifo_lane s) [0..<KBC_MAX_KPENT c])"
  unfolding sample_lanes_def sample_upto_def
  by (rule filter_cong) (simp_all add: reported_lane_def lane_is_fn_def)

lemma sample_fn_ex:
  "sample_fn c s =
     (use_fn_map s \<and> (\<exists>i<KBC_MAX_KPENT c. lane_valid (fifo_lane s i) \<and>
        keycode s ! unat (lane_scancode (fifo_lane s i)) = KEY_FN c))"
  by (auto simp add: sample_fn_def fn_upto_def lane_is_fn_def list_ex_iff)

text \<open>
  C1. With the array sizes of the C declarations: a sample (the Fn key already taken
  out) is ghosted exactly when the filter is enabled, the sample has at least three
  entries, two entries at different indices share a row and two entries at different
  indices share a column. A ghosted sample is discarded: the register reads of the
  decoding are all \<^verbatim>\<open>tegra_kbc_report_keys\<close> does, so no event is emitted and
  \<^verbatim>\<open>current_keys\<close> and \<^verbatim>\<open>num_pressed_keys\<close> are unchanged. Every other sample is
  reported whole: the releases, then a scan-code and a press event for each of its
  entries, then the synchronisation event, and it becomes the current key set.
\<close>

theorem ghost_filter_discards:
  assumes pre: "report_pre c sc0 kc0 s"
  shows "ghosted c s =
           (use_ghost_filter s \<and> 3 \<le> length (sample_lanes c s) \<and>
            (\<exists>i j. i < j \<and> j < length (sample_lanes c s) \<and>
                   lane_row (sample_lanes c s ! i) = lane_row (sample_lanes c s ! j)) \<and>
            (\<exists>i j. i < j \<and> j < length (sample_lanes c s) \<and>
                   lane_column (sample_lanes c s ! i) = lane_column (sample_lanes c s ! j))) \<and>
         (if ghosted c s
          then tegra_kbc_report_keys c sc0 kc0 s = s\<lparr>mmio_log := mmio_log s @ fifo_reads c\<rparr> \<and>
               events (tegra_kbc_report_keys c sc0 kc0 s) = events s \<and>
               CurrentKeys (tegra_kbc_report_keys c sc0 kc0 s) = CurrentKeys s
          else events (tegra_kbc_report_keys c sc0 kc0 s) =
                 events s @ released_events (CurrentKeys s) (sample_keycodes c s) @
                   pressed_events (sample_scancodes c s) (sample_keycodes c s) @ [EV_SYN] \<and>
               CurrentKeys (tegra_kbc_report_keys c sc0 kc0 s) = sample_keycodes c s)"
proof -
  have g: "ghosted c s =
           (use_ghost_filter s \<and> 3 \<le> length (sample_lanes c s) \<and>
            (\<exists>i j. i < j \<and> j < length (sample_lanes c s) \<and>
                   lane_row (sample_lanes c s ! i) = lane_row (sample_lanes c s ! j)) \<and>
            (\<exists>i j. i < j \<and> j < length (sample_lanes c s) \<and>
                   lane_column (sample_lanes c s ! i) = lane_column (sample_lanes c s ! j)))"
    by (simp add: ghosted_def row_collision_def column_collision_def some_pair_nth)
  have len: "length (sample_keycodes c s) = length (sample_lanes c s)"
    by (simp add: sample_keycodes_def sample_scancodes_def)
  show ?thesis
  proof (cases "ghosted c s")
    case True
    with report_keys_eq [OF pre] have
      "tegra_kbc_report_keys c sc0 kc0 s = s\<lparr>mmio_log := mmio_log s @ fifo_reads c\<rparr>" by simp
    with True g show ?thesis by (simp add: CurrentKeys_def)
  next
    case False
    with report_keys_eq [OF pre] obtain ck where
      r: "tegra_kbc_report_keys c sc0 kc0 s =
                 s\<lparr>mmio_log := mmio_log s @ fifo_reads c,
                   events := events s @ released_events (CurrentKeys s) (sample_keycodes c s) @
                       pressed_events (sample_scancodes c s) (sample_keycodes c s) @ [EV_SYN],
                   current_keys := ck,
                   num_pressed_keys := length (sample_lanes c s)\<rparr>"
      and t: "take (length (sample_lanes c s)) ck = sample_keycodes c s"
      by auto
    from False g r t show ?thesis by (simp add: CurrentKeys_update)
  qed
qed

theorem ghost_filter_discards_witness:
  "report_pre ex_consts ex_scancodes0 ex_keycodes0 ex_ghost \<and>
   sample_lanes ex_consts ex_ghost = [0x80, 0x81, 0x88] \<and>
   ghosted ex_consts ex_ghost \<and>
   tegra_kbc_report_keys ex_consts ex_scancodes0 ex_keycodes0 ex_ghost =
     ex_ghost\<lparr>mmio_log := [Readl 0x30, Readl 0x34]\<rparr> \<and>
   events (tegra_kbc_report_keys ex_consts ex_scancodes0 ex_keycodes0 ex_ghost) = [] \<and>
   CurrentKeys (tegra_kbc_report_keys ex_consts ex_scancodes0 ex_keycodes0 ex_ghost) = [30, 48]"
  using ghost_filter_discards [OF ex_pre(1)] ex_pre(1) ex_sample_lanes(1) ex_ghosted(1)
  by (simp add: ex_fifo_reads) (simp add: ex_ghost_def ex_held_def ex_kbc_def CurrentKeys_def)

text \<open>
  C2. For a sample that is not discarded the events emitted are, in this order: a
  release event for each entry of the current key set whose key code is absent from the
  new sample; for each entry of the new sample in FIFO order its scan code followed by
  a press event (also for keys already pressed); one synchronisation event. Afterwards
  \<^verbatim>\<open>current_keys[0..num_pressed_keys)\<close> is the list of key codes of the new sample.
  Apart from the register trace nothing else changes.
\<close>

theorem report_keys_batch:
  assumes pre: "report_pre c sc0 kc0 s" and ng: "\<not> ghosted c s"
  shows "\<exists>ck. tegra_kbc_report_keys c sc0 kc0 s =
           s\<lparr>mmio_log := mmio_log s @ fifo_reads c,
             events := events s @
               map (\<lambda>k. EV_KEY k 0)
                 (filter (\<lambda>k. k \<notin> set (sample_keycodes c s)) (CurrentKeys s)) @
               concat (map (\<lambda>(sc, kc). [EV_MSC_SCAN sc, EV_KEY kc 1])
                 (zip (sample_scancodes c s) (sample_keycodes c s))) @
               [EV_SYN],
             current_keys := ck,
             num_pressed_keys := length (sample_keycodes c s)\<rparr> \<and>
           take (length (sample_keycodes c s)) ck = sample_keycodes c s \<and>
           CurrentKeys (tegra_kbc_report_keys c sc0 kc0 s) = sample_keycodes c s"
proof -
  have len: "length (sample_keycodes c s) = length (sample_lanes c s)"
    by (simp add: sample_keycodes_def sample_scancodes_def)
  from ng report_keys_eq [OF pre] obtain ck where
      r: "tegra_kbc_report_keys c sc0 kc0 s =
                 s\<lparr>mmio_log := mmio_log s @ fifo_reads c,
                   events := events s @ released_events (CurrentKeys s) (sample_keycodes c s) @
                       pressed_events (sample_scancodes c s) (sample_keycodes c s) @ [EV_SYN],
                   current_keys := ck,
                   num_pressed_keys := length (sample_lanes c s)\<rparr>"
      and t: "take (length (sample_lanes c s)) ck = sample_keycodes c s"
      by auto
  from r t have "tegra_kbc_report_keys c sc0 kc0 s =
           s\<lparr>mmio_log := mmio_log s @ fifo_reads c,
             events := events s @
               map (\<lambda>k. EV_KEY k 0)
                 (filter (\<lambda>k. k \<notin> set (sample_keycodes c s)) (CurrentKeys s)) @
               concat (map (\<lambda>(sc, kc). [EV_MSC_SCAN sc, EV_KEY kc 1])
                 (zip (sample_scancodes c s) (sample_keycodes c s))) @
               [EV_SYN],
             current_keys := ck,
             num_pressed_keys := length (sample_keycodes c s)\<rparr> \<and>
           take (length (sample_keycodes c s)) ck = sample_keycodes c s \<and>
           CurrentKeys (tegra_kbc_report_keys c sc0 kc0 s) = sample_keycodes c s"
    by (simp add: len released_events_def pressed_events_def CurrentKeys_update)
  then show ?thesis by blast
qed

theorem report_keys_batch_witness:
  "report_pre ex_consts ex_scancodes0 ex_keycodes0 ex_two \<and> \<not> ghosted ex_consts ex_two \<and>
   CurrentKeys ex_two = [1, 48] \<and>
   events (tegra_kbc_report_keys ex_consts ex_scancodes0 ex_keycodes0 ex_two) =
     events ex_two @
     [EV_KEY 48 0, EV_MSC_SCAN 0, EV_KEY 1 1, EV_MSC_SCAN 9, EV_KEY 10 1, EV_SYN] \<and>
   CurrentKeys (tegra_kbc_report_keys ex_consts ex_scancodes0 ex_keycodes0 ex_two) = [1, 10]"
proof -
  have e: "CurrentKeys ex_two = [1, 48]"
    by (simp add: ex_two_def ex_kbc_def CurrentKeys_def)
  from report_keys_batch [OF ex_pre(3) ex_ghosted(3)] obtain ck where
    "tegra_kbc_report_keys ex_consts ex_scancodes0 ex_keycodes0 ex_two =
       ex_two\<lparr>mmio_log := mmio_log ex_two @ fifo_reads ex_consts,
             events := events ex_two @
               map (\<lambda>k. EV_KEY k 0)
                 (filter (\<lambda>k. k \<notin> set (sample_keycodes ex_consts ex_two)) (CurrentKeys ex_two)) @
               concat (map (\<lambda>(sc, kc). [EV_MSC_SCAN sc, EV_KEY kc 1])
                 (zip (sample_scancodes ex_consts ex_two) (sample_keycodes ex_consts ex_two))) @
               [EV_SYN],
             current_keys := ck,
             num_pressed_keys := length (sample_keycodes ex_consts ex_two)\<rparr>"
    and "CurrentKeys (tegra_kbc_report_keys ex_consts ex_scancodes0 ex_keycodes0 ex_two) =
           sample_keycodes ex_consts ex_two"
    by blast
  then show ?thesis
    using ex_pre(3) ex_ghosted(3)
    by (simp add: e ex_sample_keycodes ex_sample_scancodes)
qed

text \<open>
  C4. The first loop of \<^verbatim>\<open>tegra_kbc_report_keys\<close> reads exactly the FIFO entry
  registers that hold \<^verbatim>\<open>KBC_MAX_KPENT\<close> byte lanes, each once and in order. In each byte
  lane bit 7 is the valid flag, bits 0 to 2 the column and bits 3 to 6 the row; a lane
  whose valid flag is unset is skipped and not counted; a valid lane contributes the
  scan code \<^verbatim>\<open>(row << KBC_ROW_SHIFT) | column\<close> and the key code the keymap gives it.
  The one valid lane that is not counted is the Fn key when the Fn map is in use (claim
  C5); without the Fn map every valid lane counts.
\<close>

theorem decode_sample_lanes:
  assumes k: "KBC_MAX_KPENT c \<le> length sc0" "KBC_MAX_KPENT c \<le> length kc0"
  shows "(\<exists>l. decode_sample c sc0 kc0 s = (s\<lparr>mmio_log := mmio_log s @ fifo_reads c\<rparr>, l) \<and>
            num_down l = length (sample_lanes c s) \<and>
            take (num_down l) (scancodes l) =
              map (\<lambda>b. push_bit KBC_ROW_SHIFT (lane_row b) OR lane_column b) (sample_lanes c s) \<and>
            take (num_down l) (keycodes l) =
              map (\<lambda>b. keycode s ! unat (lane_scancode b)) (sample_lanes c s) \<and>
            fn_keypress l = sample_fn c s) \<and>
         sample_lanes c s =
           filter (\<lambda>b. lane_valid b \<and>
                       \<not> (use_fn_map s \<and> keycode s ! unat (lane_scancode b) = KEY_FN c))
             (map (fifo_lane s) [0..<KBC_MAX_KPENT c]) \<and>
         (\<not> use_fn_map s \<longrightarrow>
            sample_lanes c s = filter lane_valid (map (fifo_lane s) [0..<KBC_MAX_KPENT c]))"
proof -
  obtain l where d: "fold (decode_step c) [0..<KBC_MAX_KPENT c] (s, report_locals_init sc0 kc0) =
          (s\<lparr>mmio_log := mmio_log s @ decode_reads (KBC_MAX_KPENT c)\<rparr>, l)"
    and inv: "decode_inv c s sc0 kc0 (KBC_MAX_KPENT c) l"
    using decode_fold [OF k, of c s] by blast
  have i: "num_down l = length (sample_lanes c s)"
    "take (num_down l) (scancodes l) = map lane_scancode (sample_lanes c s)"
    "take (num_down l) (keycodes l) = map (\<lambda>b. keycode s ! unat (lane_scancode b)) (sample_lanes c s)"
    "fn_keypress l = sample_fn c s"
    using inv unfolding decode_inv_def sample_lanes_def sample_fn_def by blast+
  have "decode_sample c sc0 kc0 s = (s\<lparr>mmio_log := mmio_log s @ fifo_reads c\<rparr>, l)"
    using d by (simp add: decode_sample_def fifo_reads_def decode_reads_words)
  moreover have "map lane_scancode (sample_lanes c s) =
     map (\<lambda>b. push_bit KBC_ROW_SHIFT (lane_row b) OR lane_column b) (sample_lanes c s)"
    by (simp add: lane_scancode_def)
  ultimately have "\<exists>l. decode_sample c sc0 kc0 s = (s\<lparr>mmio_log := mmio_log s @ fifo_reads c\<rparr>, l) \<and>
            num_down l = length (sample_lanes c s) \<and>
            take (num_down l) (scancodes l) =
              map (\<lambda>b. push_bit KBC_ROW_SHIFT (lane_row b) OR lane_column b) (sample_lanes c s) \<and>
            take (num_down l) (keycodes l) =
              map (\<lambda>b. keycode s ! unat (lane_scancode b)) (sample_lanes c s) \<and>
            fn_keypress l = sample_fn c s"
    using i by auto
  moreover have "\<not> use_fn_map s \<longrightarrow>
            sample_lanes c s = filter lane_valid (map (fifo_lane s) [0..<KBC_MAX_KPENT c])"
    by (simp add: sample_lanes_filter)
  ultimately show ?thesis using sample_lanes_filter [of c s] by blast
qed

theorem decode_sample_lanes_witness:
  "KBC_MAX_KPENT ex_consts \<le> length ex_scancodes0 \<and>
   KBC_MAX_KPENT ex_consts \<le> length ex_keycodes0 \<and>
   map (fifo_lane ex_ghost) [0..<8] = [0x80, 0x81, 0x88, 0, 0, 0, 0, 0] \<and>
   (\<exists>l. decode_sample ex_consts ex_scancodes0 ex_keycodes0 ex_ghost =
           (ex_ghost\<lparr>mmio_log := [Readl 0x30, Readl 0x34]\<rparr>, l) \<and>
        num_down l = 3 \<and> take (num_down l) (scancodes l) = [0, 1, 8] \<and>
        take (num_down l) (keycodes l) = [1, 2, 9] \<and>
        \<not> fn_keypress l)"
proof -
  have k: "KBC_MAX_KPENT ex_consts \<le> length ex_scancodes0"
    "KBC_MAX_KPENT ex_consts \<le> length ex_keycodes0"
    by (simp_all add: ex_consts_simps ex_scancodes0_def ex_keycodes0_def)
  have m: "mmio_log ex_ghost = []" by (simp add: ex_ghost_def ex_held_def ex_kbc_def)
  from decode_sample_lanes [OF k, of ex_ghost] obtain l where
    "decode_sample ex_consts ex_scancodes0 ex_keycodes0 ex_ghost =
       (ex_ghost\<lparr>mmio_log := mmio_log ex_ghost @ fifo_reads ex_consts\<rparr>, l)"
    "num_down l = length (sample_lanes ex_consts ex_ghost)"
    "take (num_down l) (scancodes l) =
       map (\<lambda>b. push_bit KBC_ROW_SHIFT (lane_row b) OR lane_column b) (sample_lanes ex_consts ex_ghost)"
    "take (num_down l) (keycodes l) =
       map (\<lambda>b. keycode ex_ghost ! unat (lane_scancode b)) (sample_lanes ex_consts ex_ghost)"
    "fn_keypress l = sample_fn ex_consts ex_ghost"
    by blast
  then have "decode_sample ex_consts ex_scancodes0 ex_keycodes0 ex_ghost =
           (ex_ghost\<lparr>mmio_log := [Readl 0x30, Readl 0x34]\<rparr>, l) \<and>
        num_down l = 3 \<and> take (num_down l) (scancodes l) = [0, 1, 8] \<and>
        take (num_down l) (keycodes l) = [1, 2, 9] \<and>
        \<not> fn_keypress l"
    by (simp add: m ex_fifo_reads ex_sample_lanes ex_sample_fn ex_flags ex_lane_scancode
        ex_keycode_nth lane_scancode_def [symmetric])
  then show ?thesis using k ex_lanes(1) by blast
qed

lemma keycode_index_in_range:
  "length (keycode s) = 2 * KBC_MAX_KEY c \<Longrightarrow> 128 \<le> KBC_MAX_KEY c \<Longrightarrow>
   unat (sc :: u8) < length (keycode s)"
  using unsigned_less [of sc, where 'a = nat] by simp

lemma lane_scancode_less: "unat (lane_scancode b) < 128"
proof -
  have "lane_scancode b = take_bit 7 b" by (rule sc_low)
  then have "unat (lane_scancode b) = take_bit 7 (unat b)" by (simp add: unsigned_take_bit_eq)
  then show ?thesis by (simp add: take_bit_eq_mod)
qed

lemma fn_offset_no_wrap:
  "KBC_MAX_KEY c \<le> 128 \<Longrightarrow>
   unat (lane_scancode b + of_nat (KBC_MAX_KEY c)) = unat (lane_scancode b) + KBC_MAX_KEY c"
proof -
  assume a: "KBC_MAX_KEY c \<le> 128"
  then have u: "unat (of_nat (KBC_MAX_KEY c) :: u8) = KBC_MAX_KEY c"
    by (simp add: unat_of_nat)
  have "unat (lane_scancode b) + unat (of_nat (KBC_MAX_KEY c) :: u8) < 2 ^ 8"
    using lane_scancode_less [of b] a u by simp
  then have "unat (lane_scancode b + of_nat (KBC_MAX_KEY c)) =
      unat (lane_scancode b) + unat (of_nat (KBC_MAX_KEY c) :: u8)"
    by (simp add: unat_word_ariths)
  with u show ?thesis by simp
qed

text \<open>
  C5. In a sample in which some valid lane is the Fn key while the Fn map is in use,
  that lane is left out of the sample and every remaining entry has \<^verbatim>\<open>KBC_MAX_KEY\<close>
  added to its scan code (in an unsigned char, which does not wrap when
  \<^verbatim>\<open>KBC_MAX_KEY\<close> is at most 128) before the keymap is consulted; the scan codes and key
  codes so obtained are the ones reported. In every other sample the scan codes are
  looked up as they are.
\<close>

theorem fn_keypress_translation:
  assumes pre: "report_pre c sc0 kc0 s"
  shows "\<exists>s1 l. sample_locals c sc0 kc0 s = (s1, l) \<and>
           num_down l = length (sample_lanes c s) \<and>
           (if sample_fn c s
            then take (num_down l) (scancodes l) =
                   map (\<lambda>b. lane_scancode b + of_nat (KBC_MAX_KEY c)) (sample_lanes c s) \<and>
                 take (num_down l) (keycodes l) =
                   map (\<lambda>b. keycode s ! unat (lane_scancode b + of_nat (KBC_MAX_KEY c)))
                     (sample_lanes c s)
            else take (num_down l) (scancodes l) = map lane_scancode (sample_lanes c s) \<and>
                 take (num_down l) (keycodes l) =
                   map (\<lambda>b. keycode s ! unat (lane_scancode b)) (sample_lanes c s)) \<and>
           (if ghosted c s then events (tegra_kbc_report_keys c sc0 kc0 s) = events s
            else events (tegra_kbc_report_keys c sc0 kc0 s) =
                   events s @ released_events (CurrentKeys s) (take (num_down l) (keycodes l)) @
                     pressed_events (take (num_down l) (scancodes l))
                       (take (num_down l) (keycodes l)) @ [EV_SYN]) \<and>
           sample_fn c s =
             (use_fn_map s \<and> (\<exists>i<KBC_MAX_KPENT c. lane_valid (fifo_lane s i) \<and>
                keycode s ! unat (lane_scancode (fifo_lane s i)) = KEY_FN c)) \<and>
           sample_lanes c s =
             filter (\<lambda>b. lane_valid b \<and>
                       \<not> (use_fn_map s \<and> keycode s ! unat (lane_scancode b) = KEY_FN c))
               (map (fifo_lane s) [0..<KBC_MAX_KPENT c]) \<and>
           (KBC_MAX_KEY c \<le> 128 \<longrightarrow>
              (\<forall>b. unat (lane_scancode b + of_nat (KBC_MAX_KEY c)) =
                     unat (lane_scancode b) + KBC_MAX_KEY c))"
proof -
  from pre have k: "KBC_MAX_KPENT c \<le> length sc0" "KBC_MAX_KPENT c \<le> length kc0"
    by (simp_all add: report_pre_def)
  obtain l where sl: "sample_locals c sc0 kc0 s =
            (s\<lparr>mmio_log := mmio_log s @ decode_reads (KBC_MAX_KPENT c)\<rparr>, l)"
    and n: "num_down l = length (sample_lanes c s)"
    and t: "take (num_down l) (scancodes l) = sample_scancodes c s"
      "take (num_down l) (keycodes l) = sample_keycodes c s"
    using sample_locals_eq [OF k, of s] by blast
  have a: "if sample_fn c s
            then take (num_down l) (scancodes l) =
                   map (\<lambda>b. lane_scancode b + of_nat (KBC_MAX_KEY c)) (sample_lanes c s) \<and>
                 take (num_down l) (keycodes l) =
                   map (\<lambda>b. keycode s ! unat (lane_scancode b + of_nat (KBC_MAX_KEY c)))
                     (sample_lanes c s)
            else take (num_down l) (scancodes l) = map lane_scancode (sample_lanes c s) \<and>
                 take (num_down l) (keycodes l) =
                   map (\<lambda>b. keycode s ! unat (lane_scancode b)) (sample_lanes c s)"
    by (simp add: t sample_keycodes_def sample_scancodes_def comp_def)
  have b: "if ghosted c s then events (tegra_kbc_report_keys c sc0 kc0 s) = events s
            else events (tegra_kbc_report_keys c sc0 kc0 s) =
                   events s @ released_events (CurrentKeys s) (take (num_down l) (keycodes l)) @
                     pressed_events (take (num_down l) (scancodes l))
                       (take (num_down l) (keycodes l)) @ [EV_SYN]"
    using report_keys_eq [OF pre] by (auto simp add: t split: if_splits)
  have d: "KBC_MAX_KEY c \<le> 128 \<longrightarrow>
              (\<forall>b. unat (lane_scancode b + of_nat (KBC_MAX_KEY c)) =
                     unat (lane_scancode b) + KBC_MAX_KEY c)"
    by (simp add: fn_offset_no_wrap)
  from sl n a b d sample_fn_ex [of c s] sample_lanes_filter [of c s] show ?thesis by blast
qed

theorem fn_keypress_translation_witness:
  "report_pre ex_consts ex_scancodes0 ex_keycodes0 ex_fn \<and>
   map (fifo_lane ex_fn) [0..<8] = [0x82, 0x80, 0x89, 0, 0, 0, 0, 0] \<and>
   keycode ex_fn ! unat (lane_scancode 0x82) = KEY_FN ex_consts \<and>
   sample_fn ex_consts ex_fn \<and> \<not> ghosted ex_consts ex_fn \<and>
   (\<exists>s1 l. sample_locals ex_consts ex_scancodes0 ex_keycodes0 ex_fn = (s1, l) \<and>
      num_down l = 2 \<and>
      take (num_down l) (scancodes l) = [128, 137] \<and>
      take (num_down l) (keycodes l) = [129, 138]) \<and>
   events (tegra_kbc_report_keys ex_consts ex_scancodes0 ex_keycodes0 ex_fn) =
     [EV_KEY 30 0, EV_KEY 48 0, EV_MSC_SCAN 128, EV_KEY 129 1, EV_MSC_SCAN 137, EV_KEY 138 1,
      EV_SYN]"
proof -
  have e: "events ex_fn = []" "CurrentKeys ex_fn = [30, 48]"
    by (simp_all add: ex_fn_def ex_held_def ex_kbc_def CurrentKeys_def)
  have f: "keycode ex_fn ! unat (lane_scancode 0x82) = KEY_FN ex_consts"
    by (simp add: ex_flags ex_lane_scancode ex_keycode_nth ex_consts_simps)
  from fn_keypress_translation [OF ex_pre(2)] obtain s1 l where
    sl: "sample_locals ex_consts ex_scancodes0 ex_keycodes0 ex_fn = (s1, l)"
    and n: "num_down l = length (sample_lanes ex_consts ex_fn)"
    and t: "if sample_fn ex_consts ex_fn
            then take (num_down l) (scancodes l) =
                   map (\<lambda>b. lane_scancode b + of_nat (KBC_MAX_KEY ex_consts)) (sample_lanes ex_consts ex_fn) \<and>
                 take (num_down l) (keycodes l) =
                   map (\<lambda>b. keycode ex_fn ! unat (lane_scancode b + of_nat (KBC_MAX_KEY ex_consts)))
                     (sample_lanes ex_consts ex_fn)
            else take (num_down l) (scancodes l) = map lane_scancode (sample_lanes ex_consts ex_fn) \<and>
                 take (num_down l) (keycodes l) =
                   map (\<lambda>b. keycode ex_fn ! unat (lane_scancode b)) (sample_lanes ex_consts ex_fn)"
    and ev: "if ghosted ex_consts ex_fn
            then events (tegra_kbc_report_keys ex_consts ex_scancodes0 ex_keycodes0 ex_fn) = events ex_fn
            else events (tegra_kbc_report_keys ex_consts ex_scancodes0 ex_keycodes0 ex_fn) =
                   events ex_fn @ released_events (CurrentKeys ex_fn) (take (num_down l) (keycodes l)) @
                     pressed_events (take (num_down l) (scancodes l))
                       (take (num_down l) (keycodes l)) @ [EV_SYN]"
    by blast
  have n2: "num_down l = 2" using n by (simp add: ex_sample_lanes)
  have t2: "take (num_down l) (scancodes l) = [128, 137]"
    "take (num_down l) (keycodes l) = [129, 138]"
    using t by (simp_all add: ex_sample_fn ex_sample_lanes ex_lane_scancode ex_consts_simps
        ex_flags ex_keycode_nth)
  have "events (tegra_kbc_report_keys ex_consts ex_scancodes0 ex_keycodes0 ex_fn) =
     [EV_KEY 30 0, EV_KEY 48 0, EV_MSC_SCAN 128, EV_KEY 129 1, EV_MSC_SCAN 137, EV_KEY 138 1,
      EV_SYN]"
    using ev by (simp add: ex_ghosted t2 e released_events_def pressed_events_def)
  with sl n2 t2 f ex_pre(2) ex_lanes(2) ex_sample_fn(2) ex_ghosted(2) show ?thesis by blast
qed

section \<open>The invariant of the current key set\<close>














section \<open>The timer callback on a FIFO that holds entries\<close>










section \<open>The wake masks\<close>

lemma row_mask_addr_inj:
  assumes "r < 2 ^ 30" "r' < 2 ^ 30"
  shows "(row_mask_addr r = row_mask_addr r') = (r = r')"
proof
  assume "row_mask_addr r = row_mask_addr r'"
  then have e: "(of_nat (4 * r) :: u32) = of_nat (4 * r')" by (simp add: row_mask_addr_def)
  have "unat (of_nat (4 * r) :: u32) = 4 * r" "unat (of_nat (4 * r') :: u32) = 4 * r'"
    using assms by (simp_all only: unat_of_nat) simp_all
  with e show "r = r'" by simp
next
  assume "r = r'"
  then show "row_mask_addr r = row_mask_addr r'" by simp
qed

lemma wake_addrs:
  "KBC_ROW0_MASK_0 + of_nat i * 4 = row_mask_addr i"
  "of_nat i * 4 + KBC_ROW0_MASK_0 = row_mask_addr i"
  by (simp_all add: row_mask_addr_def)

lemma wake_reset_fold:
  "fold (wake_reset_step v) [0..<m] s =
     s\<lparr>regs := (\<lambda>a. if \<exists>i<m. a = row_mask_addr i then v else regs s a),
       mmio_log := mmio_log s @ map (\<lambda>i. Writel (row_mask_addr i) v) [0..<m]\<rparr>"
proof (induction m)
  case 0
  show ?case by simp
next
  case (Suc m)
  have e: "fold (wake_reset_step v) [0..<Suc m] s =
           wake_reset_step v m (fold (wake_reset_step v) [0..<m] s)" by simp
  have f: "(\<lambda>a. if \<exists>i<m. a = row_mask_addr i then v else regs s a)(row_mask_addr m := v) =
           (\<lambda>a. if \<exists>i<Suc m. a = row_mask_addr i then v else regs s a)"
    by (auto simp add: fun_eq_iff less_Suc_eq)
  show ?case unfolding e Suc by (simp add: wake_reset_step_def writel_def wake_addrs f)
qed

lemma bit_clear_col:
  "bit ((w::u32) AND NOT (2 ^ k)) j = (bit w j \<and> j \<noteq> k)"
  by (auto simp add: bit_simps bit_exp_iff dest: bit_imp_le_length)

lemma wake_key_fold:
  "n \<le> length (wake_cfg (pdata s)) \<Longrightarrow>
   pdata (fold wake_key_step [0..<n] s) = pdata s \<and>
   (\<forall>a j. bit (regs (fold wake_key_step [0..<n] s) a) j =
      (bit (regs s a) j \<and>
       \<not> (\<exists>i<n. row_mask_addr (row (wake_cfg (pdata s) ! i)) = a \<and>
                 col (wake_cfg (pdata s) ! i) = j)))"
proof (induction n)
  case 0
  show ?case by simp
next
  case (Suc n)
  define t where "t = fold wake_key_step [0..<n] s"
  have e: "fold wake_key_step [0..<Suc n] s = wake_key_step n t" by (simp add: t_def)
  from Suc have p: "pdata t = pdata s"
    and b: "\<And>a j. bit (regs t a) j =
      (bit (regs s a) j \<and>
       \<not> (\<exists>i<n. row_mask_addr (row (wake_cfg (pdata s) ! i)) = a \<and>
                 col (wake_cfg (pdata s) ! i) = j))"
    by (simp_all add: t_def)
  have r: "regs (wake_key_step n t) =
      (regs t)(row_mask_addr (row (wake_cfg (pdata s) ! n)) :=
         regs t (row_mask_addr (row (wake_cfg (pdata s) ! n))) AND
           NOT (push_bit (col (wake_cfg (pdata s) ! n)) 1))"
    and q: "pdata (wake_key_step n t) = pdata s"
    by (simp_all add: wake_key_step_def readl_def writel_def Let_def p wake_addrs)
  show ?case unfolding e
    by (auto simp add: q r b bit_clear_col less_Suc_eq)
qed


lemma wake_reset_row:
  "r < m \<Longrightarrow> regs (fold (wake_reset_step v) [0..<m] s) (row_mask_addr r) = v"
  by (auto simp add: wake_reset_fold)

lemma wake_reset_pdata: "pdata (fold (wake_reset_step v) [0..<m] s) = pdata s"
  by (simp add: wake_reset_fold)

text \<open>
  C8. For a wake list of at most \<^verbatim>\<open>KBC_MAX_KEY\<close> matrix positions (a longer one stops
  the kernel at the \<^verbatim>\<open>BUG_ON\<close>), \<^verbatim>\<open>tegra_kbc_setup_wakekeys\<close> returns, and
  afterwards the mask bit of a position (row below \<^verbatim>\<open>KBC_MAX_ROW\<close>, column a bit of the
  32-bit register) is 1 (blocked) exactly when filtering is active, the wake list is
  not empty and the position is not in the list. So with filtering active and a
  non-empty list the bit is 0 exactly for the positions of the list, and with
  filtering inactive or an empty list every bit is 0.
\<close>

theorem setup_wakekeys_mask:
  assumes cnt: "wake_cnt (pdata s) \<le> KBC_MAX_KEY c"
    and rows: "KBC_MAX_ROW c \<le> 2 ^ 30"
    and valid: "valid_wake_cfg c (pdata s)"
    and r: "r < KBC_MAX_ROW c" and j: "j < 32"
  shows "\<exists>s'. tegra_kbc_setup_wakekeys c filter_on s = Some s' \<and>
           wake_blocked s' r j =
             (filter_on \<and> wake_cfg (pdata s) \<noteq> [] \<and>
              \<not> (\<exists>k\<in>set (wake_cfg (pdata s)). row k = r \<and> col k = j))"
proof -
  define v :: u32 where "v = (if filter_on \<and> wake_cnt (pdata s) \<noteq> 0 then NOT 0 else 0)"
  define s1 where "s1 = fold (wake_reset_step v) [0..<KBC_MAX_ROW c] s"
  have p1: "pdata s1 = pdata s" by (simp add: s1_def wake_reset_pdata)
  have r1: "regs s1 (row_mask_addr r) = v" using r by (simp add: s1_def wake_reset_row)
  have bv: "bit v j = (filter_on \<and> wake_cfg (pdata s) \<noteq> [])"
    using j by (simp add: v_def wake_cnt_def bit_simps)
  have d: "tegra_kbc_setup_wakekeys c filter_on s =
      (if wake_cnt (pdata s) > KBC_MAX_KEY c then None
       else if filter_on then Some (fold wake_key_step [0..<wake_cnt (pdata s1)] s1)
       else Some s1)"
    by (simp only: tegra_kbc_setup_wakekeys_def Let_def s1_def v_def)
  show ?thesis
  proof (cases filter_on)
    case False
    have "tegra_kbc_setup_wakekeys c filter_on s = Some s1"
      unfolding d using cnt False by simp
    with False r1 bv show ?thesis by (simp add: wake_blocked_def)
  next
    case True
    define s2 where "s2 = fold wake_key_step [0..<length (wake_cfg (pdata s))] s1"
    have e: "tegra_kbc_setup_wakekeys c filter_on s = Some s2"
      unfolding d using cnt True by (simp add: s2_def p1 wake_cnt_def)
    have n: "length (wake_cfg (pdata s)) \<le> length (wake_cfg (pdata s1))" by (simp add: p1)
    from wake_key_fold [OF n] have
      b: "bit (regs s2 (row_mask_addr r)) j =
           (bit (regs s1 (row_mask_addr r)) j \<and>
            \<not> (\<exists>i<length (wake_cfg (pdata s)).
                  row_mask_addr (row (wake_cfg (pdata s) ! i)) = row_mask_addr r \<and>
                  col (wake_cfg (pdata s) ! i) = j))"
      by (simp add: s2_def p1)
    have rr: "r < 2 ^ 30" using r rows by simp
    have a: "\<And>i. i < length (wake_cfg (pdata s)) \<Longrightarrow>
          (row_mask_addr (row (wake_cfg (pdata s) ! i)) = row_mask_addr r) =
          (row (wake_cfg (pdata s) ! i) = r)"
    proof -
      fix i assume "i < length (wake_cfg (pdata s))"
      then have "row (wake_cfg (pdata s) ! i) < KBC_MAX_ROW c"
        using valid by (simp add: valid_wake_cfg_def list_all_length)
      then have "row (wake_cfg (pdata s) ! i) < 2 ^ 30" using rows by simp
      then show "(row_mask_addr (row (wake_cfg (pdata s) ! i)) = row_mask_addr r) =
          (row (wake_cfg (pdata s) ! i) = r)"
        using rr by (rule row_mask_addr_inj)
    qed
    have "(\<exists>i<length (wake_cfg (pdata s)).
                  row_mask_addr (row (wake_cfg (pdata s) ! i)) = row_mask_addr r \<and>
                  col (wake_cfg (pdata s) ! i) = j) =
          (\<exists>i<length (wake_cfg (pdata s)).
                  row (wake_cfg (pdata s) ! i) = r \<and> col (wake_cfg (pdata s) ! i) = j)"
      using a by blast
    also have "\<dots> = (\<exists>k\<in>set (wake_cfg (pdata s)). row k = r \<and> col k = j)"
      unfolding Bex_def in_set_conv_nth by blast
    finally have "(\<exists>i<length (wake_cfg (pdata s)).
                  row_mask_addr (row (wake_cfg (pdata s) ! i)) = row_mask_addr r \<and>
                  col (wake_cfg (pdata s) ! i) = j) =
          (\<exists>k\<in>set (wake_cfg (pdata s)). row k = r \<and> col k = j)" .
    with b r1 bv True e show ?thesis by (simp add: wake_blocked_def)
  qed
qed

lemma setup_wakekeys_bug:
  "KBC_MAX_KEY c < wake_cnt (pdata s) \<Longrightarrow> tegra_kbc_setup_wakekeys c filter_on s = None"
  by (simp add: tegra_kbc_setup_wakekeys_def)

lemma ex_valid_wake:
  "wake_cnt (pdata ex_kbc) \<le> KBC_MAX_KEY ex_consts" "KBC_MAX_ROW ex_consts \<le> 2 ^ 30"
  "valid_wake_cfg ex_consts (pdata ex_kbc)"
  by (simp_all add: wake_cnt_def valid_wake_cfg_def ex_kbc_def ex_consts_simps)

theorem setup_wakekeys_mask_witness:
  "wake_cnt (pdata ex_kbc) \<le> KBC_MAX_KEY ex_consts \<and> KBC_MAX_ROW ex_consts \<le> 2 ^ 30 \<and>
   valid_wake_cfg ex_consts (pdata ex_kbc) \<and> (2::nat) < KBC_MAX_ROW ex_consts \<and> (3::nat) < 32 \<and>
   wake_cfg (pdata ex_kbc) = [\<lparr>row = 0, col = 1\<rparr>, \<lparr>row = 2, col = 3\<rparr>] \<and>
   (\<exists>s'. tegra_kbc_setup_wakekeys ex_consts True ex_kbc = Some s' \<and> \<not> wake_blocked s' 2 3) \<and>
   (\<exists>s'. tegra_kbc_setup_wakekeys ex_consts True ex_kbc = Some s' \<and> wake_blocked s' 2 1) \<and>
   (\<exists>s'. tegra_kbc_setup_wakekeys ex_consts False ex_kbc = Some s' \<and> \<not> wake_blocked s' 2 1)"
proof -
  have r: "(2::nat) < KBC_MAX_ROW ex_consts" by (simp add: ex_consts_simps)
  have w: "wake_cfg (pdata ex_kbc) = [\<lparr>row = 0, col = 1\<rparr>, \<lparr>row = 2, col = 3\<rparr>]"
    by (simp add: ex_kbc_def)
  have a: "\<exists>s'. tegra_kbc_setup_wakekeys ex_consts True ex_kbc = Some s' \<and> \<not> wake_blocked s' 2 3"
    using setup_wakekeys_mask [OF ex_valid_wake r, of 3 True] by (simp add: w)
  have b: "\<exists>s'. tegra_kbc_setup_wakekeys ex_consts True ex_kbc = Some s' \<and> wake_blocked s' 2 1"
    using setup_wakekeys_mask [OF ex_valid_wake r, of 1 True] by (simp add: w)
  have c: "\<exists>s'. tegra_kbc_setup_wakekeys ex_consts False ex_kbc = Some s' \<and> \<not> wake_blocked s' 2 1"
    using setup_wakekeys_mask [OF ex_valid_wake r, of 1 False] by (simp add: w)
  from a b c r w ex_valid_wake show ?thesis by simp
qed

end
